theory Spec2Isabelle
  imports
    Main
    Complex_Main
    "HOL-Library.Multiset"
    "HOL-Library.Sublist"
    "HOL-Library.AList"
    "HOL-Library.Char_ord"
    "HOL-Library.List_Lexorder"
begin

section \<open>Python values used by the two scripts\<close>

text \<open>
  Exceptions are values. Only the exception classes that the modelled operations can
  raise are listed; \<open>HTTPError\<close> and \<open>ConnectionError\<close> are the two families of
  \<open>requests\<close> exceptions, \<open>CvError\<close> is \<open>cv2.error\<close>, \<open>ModelError\<close> is whatever the
  model constructor or predictor raises.
\<close>

datatype error =
    FileNotFoundError
  | FileExistsError
  | IsADirectoryError
  | NotADirectoryError
  | SameFileError
  | ValueError
  | OverflowError
  | KeyError
  | IndexError
  | ConnectionError
  | HTTPError
  | CvError
  | ModelError

text \<open>
  A Python \<open>float\<close>: a finite value (a real number), an infinity or a NaN. The script
  obtains \<open>args.val\<close> from \<open>argparse\<close> with \<open>type=float\<close>, which accepts \<open>nan\<close> and
  \<open>inf\<close> as well.
\<close>

datatype pyfloat = Finite real | PosInf | NegInf | NaN

text \<open>
  \<open>int(x)\<close> for a float \<open>x\<close>: truncation towards zero; \<open>ValueError\<close> on a NaN and
  \<open>OverflowError\<close> on an infinity.
\<close>

fun py_int :: "pyfloat \<Rightarrow> error + int" where
  "py_int (Finite x) = Inr (if 0 \<le> x then \<lfloor>x\<rfloor> else \<lceil>x\<rceil>)"
| "py_int PosInf = Inl OverflowError"
| "py_int NegInf = Inl OverflowError"
| "py_int NaN = Inl ValueError"

text \<open>
  The interpreter services the dataset script relies on and whose code is not part of the
  repository are gathered in one record:
  \<^item> \<open>float_round\<close> rounds the exact value of a floating-point operation to the nearest
    binary64 number (an infinity on overflow);
  \<^item> \<open>rng_seed\<close> is the generator state after \<open>random.seed(seed)\<close>;
  \<^item> \<open>rng_below g n\<close> is \<open>random._randbelow(n)\<close> in state \<open>g\<close>: the number drawn and the
    next state;
  \<^item> \<open>repr_str\<close> is \<open>repr\<close> of a \<open>str\<close>.
  Every theorem below holds for every such record.
\<close>

record 'g runtime =
  float_round :: "real \<Rightarrow> pyfloat"
  rng_seed :: "int \<Rightarrow> 'g"
  rng_below :: "'g \<Rightarrow> nat \<Rightarrow> nat \<times> 'g"
  repr_str :: "string \<Rightarrow> string"

text \<open>
  \<open>n * x\<close> for an \<open>int\<close> \<open>n \<ge> 0\<close> (a list length, far below \<open>2 ^ 53\<close>, so its
  conversion to \<open>float\<close> is exact) and a float \<open>x\<close>.
\<close>

fun float_mul :: "'g runtime \<Rightarrow> nat \<Rightarrow> pyfloat \<Rightarrow> pyfloat" where
  "float_mul rt n (Finite x) = float_round rt (real n * x)"
| "float_mul rt n PosInf = (if n = 0 then NaN else PosInf)"
| "float_mul rt n NegInf = (if n = 0 then NaN else NegInf)"
| "float_mul rt n NaN = NaN"

text \<open>The slices \<open>xs[:k]\<close> and \<open>xs[k:]\<close>; a negative \<open>k\<close> counts from the end.\<close>

definition slice_to :: "int \<Rightarrow> 'a list \<Rightarrow> 'a list" where
  "slice_to k xs = (if 0 \<le> k then take (nat k) xs else take (length xs - nat (- k)) xs)"

definition slice_from :: "int \<Rightarrow> 'a list \<Rightarrow> 'a list" where
  "slice_from k xs = (if 0 \<le> k then drop (nat k) xs else drop (length xs - nat (- k)) xs)"

subsection \<open>\<open>random.shuffle\<close>\<close>

text \<open>
  \<^verbatim>\<open>
  for i in reversed(range(1, len(x))):
      j = randbelow(i + 1)
      x[i], x[j] = x[j], x[i]
  \<close>
  The library guarantees \<open>0 \<le> j \<le> i\<close>; the model reduces the number drawn modulo
  \<open>i + 1\<close>, which changes no value the library can return.
\<close>

fun shuffle_loop :: "'g runtime \<Rightarrow> 'g \<Rightarrow> 'a list \<Rightarrow> nat \<Rightarrow> 'a list" where
  "shuffle_loop rt g xs 0 = xs"
| "shuffle_loop rt g xs (Suc k) =
     (let i = Suc k;
          (r, g') = rng_below rt g (i + 1);
          j = r mod (i + 1)
      in shuffle_loop rt g' (xs[i := xs ! j, j := xs ! i]) k)"

definition shuffle :: "'g runtime \<Rightarrow> 'g \<Rightarrow> 'a list \<Rightarrow> 'a list" where
  "shuffle rt g xs = shuffle_loop rt g xs (length xs - 1)"

section \<open>The dataset preparer: paths and the train/val split\<close>

text \<open>
  A resolved absolute path is the list of its components; the root is \<open>[]\<close>. Python
  orders paths by their component lists, strings by code point: the lexicographic
  orders of \<open>List_Lexorder\<close> and \<open>Char_ord\<close>.
\<close>

type_synonym path = "string list"

text \<open>
  Lines 96 to 100 of \<open>main\<close>, the part the specification calls \<open>splitTrainVal\<close>:
  \<^verbatim>\<open>
  imgs_sorted = sorted(imgs)
  random.shuffle(imgs_sorted)
  n_val = max(1, int(len(imgs_sorted) * args.val))
  val_imgs = imgs_sorted[:n_val]
  train_imgs = imgs_sorted[n_val:]
  \<close>
  The result is \<open>(imgs_sorted, train_imgs, val_imgs)\<close>, or the exception of \<open>int\<close>.
\<close>

definition split_train_val ::
  "'g runtime \<Rightarrow> 'g \<Rightarrow> pyfloat \<Rightarrow> path list \<Rightarrow> error + (path list \<times> path list \<times> path list)" where
  "split_train_val rt g val imgs =
     (let imgs_sorted = shuffle rt g (sort imgs) in
      case py_int (float_mul rt (length imgs_sorted) val) of
        Inl e \<Rightarrow> Inl e
      | Inr k \<Rightarrow>
          (let n_val = max 1 k;
               val_imgs = slice_to n_val imgs_sorted;
               train_imgs = slice_from n_val imgs_sorted
           in Inr (imgs_sorted, train_imgs, val_imgs)))"


section \<open>The dataset preparer: names and suffixes\<close>

text \<open>
  \<open>Path.name\<close>, \<open>Path.parent\<close> and \<open>Path.suffix\<close>, as \<open>pathlib\<close> has them up to
  Python 3.13. The suffix of a name is what starts at its last dot, provided that dot is
  neither the first nor the last character:
  \<^verbatim>\<open>
  i = name.rfind('.')
  if 0 < i < len(name) - 1: return name[i:]
  else: return ''
  \<close>
\<close>

definition name :: "path \<Rightarrow> string" where
  "name p = (if p = [] then [] else last p)"

definition parent :: "path \<Rightarrow> path" where
  "parent p = butlast p"

definition rfind_dot :: "string \<Rightarrow> nat option" where
  "rfind_dot nm =
     (if CHR ''.'' \<in> set nm
      then Some (length nm - 1 - length (takeWhile (\<lambda>c. c \<noteq> CHR ''.'') (rev nm)))
      else None)"

definition path_suffix :: "string \<Rightarrow> string" where
  "path_suffix nm =
     (case rfind_dot nm of
        None \<Rightarrow> []
      | Some i \<Rightarrow> if 0 < i \<and> i < length nm - 1 then drop i nm else [])"

definition path_stem :: "string \<Rightarrow> string" where
  "path_stem nm =
     (case rfind_dot nm of
        None \<Rightarrow> nm
      | Some i \<Rightarrow> if 0 < i \<and> i < length nm - 1 then take i nm else nm)"

text \<open>
  \<open>str.lower\<close>, on ASCII letters. No character outside ASCII lowers to one of the
  letters of \<open>.jpg\<close>, \<open>.jpeg\<close> or \<open>.png\<close>, so the membership test of \<open>find_images\<close> is
  not affected by the restriction.
\<close>

definition lower_char :: "char \<Rightarrow> char" where
  "lower_char c =
     (if CHR ''A'' \<le> c \<and> c \<le> CHR ''Z'' then char_of (of_char c + (32::nat)) else c)"

definition lower :: "string \<Rightarrow> string" where
  "lower s = map lower_char s"

text \<open>
  \<open>Path.with_suffix\<close>: the new suffix must be empty or start with a dot, must not be a
  lone dot and must hold no separator; the path must have a name.
\<close>

definition with_suffix :: "path \<Rightarrow> string \<Rightarrow> error + path" where
  "with_suffix p sfx =
     (if CHR ''/'' \<in> set sfx then Inl ValueError
      else if (sfx \<noteq> [] \<and> hd sfx \<noteq> CHR ''.'') \<or> sfx = ''.'' then Inl ValueError
      else if name p = [] then Inl ValueError
      else Inr (butlast p @ [path_stem (name p) @ sfx]))"

section \<open>The dataset preparer: the file system\<close>

text \<open>
  A file system is an association list from paths to nodes; the first entry of a path
  is the one that counts and the root always is a directory. A file holds its text.
  Permissions, symbolic links, quotas and concurrent changes are outside the model: an
  operation fails only for the reasons written out here.
\<close>

datatype node = Dir | File string

type_synonym fs = "(path \<times> node) list"

definition node_at :: "fs \<Rightarrow> path \<Rightarrow> node option" where
  "node_at fs p = (if p = [] then Some Dir else map_of fs p)"

definition path_exists :: "fs \<Rightarrow> path \<Rightarrow> bool" where
  "path_exists fs p = (node_at fs p \<noteq> None)"

definition is_dir :: "fs \<Rightarrow> path \<Rightarrow> bool" where
  "is_dir fs p = (node_at fs p = Some Dir)"

definition is_file :: "fs \<Rightarrow> path \<Rightarrow> bool" where
  "is_file fs p = (case node_at fs p of Some (File c) \<Rightarrow> True | _ \<Rightarrow> False)"

definition put :: "fs \<Rightarrow> path \<Rightarrow> node \<Rightarrow> fs" where
  "put fs p n = AList.update p n fs"

text \<open>\<open>Path.iterdir\<close>: the entries of a directory, files and subdirectories alike.\<close>

definition iterdir :: "fs \<Rightarrow> path \<Rightarrow> error + path list" where
  "iterdir fs d =
     (case node_at fs d of
        None \<Rightarrow> Inl FileNotFoundError
      | Some (File c) \<Rightarrow> Inl NotADirectoryError
      | Some Dir \<Rightarrow> Inr [p \<leftarrow> remdups (map fst fs). p \<noteq> [] \<and> parent p = d])"

text \<open>
  Opening a path for writing: it must not be a directory and its parent must be one.
\<close>

definition open_w :: "fs \<Rightarrow> path \<Rightarrow> error option" where
  "open_w fs p =
     (case node_at fs p of
        Some Dir \<Rightarrow> Some IsADirectoryError
      | _ \<Rightarrow>
        (case node_at fs (parent p) of
           None \<Rightarrow> Some FileNotFoundError
         | Some (File c) \<Rightarrow> Some NotADirectoryError
         | Some Dir \<Rightarrow> None))"

definition write_text :: "fs \<Rightarrow> path \<Rightarrow> string \<Rightarrow> error + fs" where
  "write_text fs p txt =
     (case open_w fs p of Some e \<Rightarrow> Inl e | None \<Rightarrow> Inr (put fs p (File txt)))"

text \<open>
  \<open>shutil.copy2(src, dst)\<close>: a destination that is a directory stands for the entry of
  the source's name in it; copying a file onto itself is \<open>SameFileError\<close>; then the
  source is opened for reading and the destination for writing.
\<close>

definition copy2 :: "fs \<Rightarrow> path \<Rightarrow> path \<Rightarrow> error + fs" where
  "copy2 fs src dst =
     (let dst = (if is_dir fs dst then dst @ [name src] else dst) in
      if src = dst \<and> path_exists fs src then Inl SameFileError
      else
        (case node_at fs src of
           None \<Rightarrow> Inl FileNotFoundError
         | Some Dir \<Rightarrow> Inl IsADirectoryError
         | Some (File c) \<Rightarrow>
             (case open_w fs dst of Some e \<Rightarrow> Inl e | None \<Rightarrow> Inr (put fs dst (File c)))))"

text \<open>
  \<open>os.mkdir\<close> and \<open>Path.mkdir(parents=True, exist_ok=True)\<close>:
  \<^verbatim>\<open>
  try: os.mkdir(self, mode)
  except FileNotFoundError:
      if not parents or self.parent == self: raise
      self.parent.mkdir(parents=True, exist_ok=True)
      self.mkdir(mode, parents=False, exist_ok=exist_ok)
  except OSError:
      if not exist_ok or not self.is_dir(): raise
  \<close>
\<close>

definition os_mkdir :: "fs \<Rightarrow> path \<Rightarrow> error + fs" where
  "os_mkdir fs p =
     (if path_exists fs p then Inl FileExistsError
      else
        (case node_at fs (parent p) of
           None \<Rightarrow> Inl FileNotFoundError
         | Some (File c) \<Rightarrow> Inl NotADirectoryError
         | Some Dir \<Rightarrow> Inr (put fs p Dir)))"

definition mkdir_exist_ok :: "fs \<Rightarrow> path \<Rightarrow> error + fs" where
  "mkdir_exist_ok fs p =
     (case os_mkdir fs p of
        Inr fs' \<Rightarrow> Inr fs'
      | Inl e \<Rightarrow> if e \<noteq> FileNotFoundError \<and> is_dir fs p then Inr fs else Inl e)"

function mkdir_parents :: "fs \<Rightarrow> path \<Rightarrow> error + fs" where
  "mkdir_parents fs p =
     (case os_mkdir fs p of
        Inr fs' \<Rightarrow> Inr fs'
      | Inl e \<Rightarrow>
          if e = FileNotFoundError then
            (if p = [] then Inl e
             else
               (case mkdir_parents fs (parent p) of
                  Inl e' \<Rightarrow> Inl e'
                | Inr fs' \<Rightarrow> mkdir_exist_ok fs' p))
          else if is_dir fs p then Inr fs
          else Inl e)"
  by pat_completeness auto
termination
  by (relation "measure (\<lambda>(fs, p). length p)") (auto simp: parent_def)

section \<open>The dataset preparer: text\<close>

text \<open>
  A text is a list of characters, each standing for one code point below 256. Decoding
  a file as UTF-8 is not modelled: a file holds its decoded text. Reading in text mode
  turns \<open>\r\n\<close> and \<open>\r\<close> into \<open>\n\<close>.
\<close>

fun universal_newlines :: "string \<Rightarrow> string" where
  "universal_newlines [] = []"
| "universal_newlines [c] = [if c = CHR 0x0D then CHR 0x0A else c]"
| "universal_newlines (c # d # cs) =
     (if c = CHR 0x0D \<and> d = CHR 0x0A then CHR 0x0A # universal_newlines cs
      else if c = CHR 0x0D then CHR 0x0A # universal_newlines (d # cs)
      else c # universal_newlines (d # cs))"

definition read_text :: "fs \<Rightarrow> path \<Rightarrow> error + string" where
  "read_text fs p =
     (case node_at fs p of
        None \<Rightarrow> Inl FileNotFoundError
      | Some Dir \<Rightarrow> Inl IsADirectoryError
      | Some (File c) \<Rightarrow> Inr (universal_newlines c))"

text \<open>
  \<open>str.splitlines\<close> breaks after \<open>\n\<close>, \<open>\r\<close>, \<open>\r\n\<close>, \<open>\v\<close>, \<open>\f\<close>, \<open>\x1c\<close>, \<open>\x1d\<close>,
  \<open>\x1e\<close> and \<open>\x85\<close>, and gives no last empty line; \<open>str.strip\<close> removes the white
  space at both ends (\<open>\t\<close> to \<open>\r\<close>, \<open>\x1c\<close> to the blank, \<open>\x85\<close> and \<open>\xa0\<close>).
\<close>

definition is_linebreak :: "char \<Rightarrow> bool" where
  "is_linebreak c =
     (c \<in> set [CHR 0x0A, CHR 0x0B, CHR 0x0C, CHR 0x0D, CHR 0x1C, CHR 0x1D, CHR 0x1E, CHR 0x85])"

fun splitlines_from :: "string \<Rightarrow> string \<Rightarrow> string list" where
  "splitlines_from cur [] = (if cur = [] then [] else [cur])"
| "splitlines_from cur [c] = (if is_linebreak c then [cur] else [cur @ [c]])"
| "splitlines_from cur (c # d # cs) =
     (if c = CHR 0x0D \<and> d = CHR 0x0A then cur # splitlines_from [] cs
      else if is_linebreak c then cur # splitlines_from [] (d # cs)
      else splitlines_from (cur @ [c]) (d # cs))"

definition splitlines :: "string \<Rightarrow> string list" where
  "splitlines s = splitlines_from [] s"

definition is_space :: "char \<Rightarrow> bool" where
  "is_space c =
     (c \<in> set [CHR 0x09, CHR 0x0A, CHR 0x0B, CHR 0x0C, CHR 0x0D, CHR 0x1C, CHR 0x1D, CHR 0x1E,
                CHR 0x1F, CHR 0x20, CHR 0x85, CHR 0xA0])"

definition strip :: "string \<Rightarrow> string" where
  "strip s = rev (dropWhile is_space (rev (dropWhile is_space s)))"

text \<open>\<open>str\<close> of a natural number, of a path, and \<open>repr\<close> of a list of strings.\<close>

function str_nat :: "nat \<Rightarrow> string" where
  "str_nat n =
     (if n < 10 then [char_of (48 + n)] else str_nat (n div 10) @ [char_of (48 + n mod 10)])"
  by pat_completeness auto
termination
  by (relation "measure id") auto

definition str_path :: "path \<Rightarrow> string" where
  "str_path p = (if p = [] then ''/'' else concat (map (\<lambda>c. ''/'' @ c) p))"

fun join_comma :: "string list \<Rightarrow> string" where
  "join_comma [] = []"
| "join_comma [x] = x"
| "join_comma (x # y # ys) = x @ '', '' @ join_comma (y # ys)"

definition repr_list :: "'g runtime \<Rightarrow> string list \<Rightarrow> string" where
  "repr_list rt xs = ''['' @ join_comma (map (repr_str rt) xs) @ '']''"

section \<open>The dataset preparer: the script\<close>

definition image_exts :: "string list" where
  "image_exts = [''.jpg'', ''.jpeg'', ''.png'']"

definition find_images :: "fs \<Rightarrow> path \<Rightarrow> error + path list" where
  "find_images fs src =
     (case iterdir fs src of
        Inl e \<Rightarrow> Inl e
      | Inr ps \<Rightarrow> Inr [p \<leftarrow> ps. lower (path_suffix (name p)) \<in> set image_exts])"

definition read_classes :: "fs \<Rightarrow> path \<Rightarrow> error + string list option" where
  "read_classes fs src =
     (let cls_file = src @ [''classes.txt''] in
      if \<not> path_exists fs cls_file then Inr None
      else
        (case read_text fs cls_file of
           Inl e \<Rightarrow> Inl e
         | Inr txt \<Rightarrow> Inr (Some [strip l. l \<leftarrow> splitlines txt, strip l \<noteq> []])))"

text \<open>
  The four \<open>mkdir\<close> calls of \<open>prepare_dirs\<close>, in order; the directories made before a
  failing call stay.
\<close>

fun mkdir_all :: "fs \<Rightarrow> path list \<Rightarrow> fs \<times> error option" where
  "mkdir_all fs [] = (fs, None)"
| "mkdir_all fs (d # ds) =
     (case mkdir_parents fs d of
        Inl e \<Rightarrow> (fs, Some e)
      | Inr fs' \<Rightarrow> mkdir_all fs' ds)"

definition prepare_dirs :: "fs \<Rightarrow> path \<Rightarrow> fs \<times> error option" where
  "prepare_dirs fs dest =
     mkdir_all fs
       [dest @ [''images'', ''train''], dest @ [''images'', ''val''],
        dest @ [''labels'', ''train''], dest @ [''labels'', ''val'']]"

text \<open>
  The body of the loop of \<open>copy_pairs\<close> for one image, from the file system, the count
  and the list reached so far; then the loop and the function.
\<close>

definition copy_pair ::
  "path \<Rightarrow> path \<Rightarrow> fs \<Rightarrow> nat \<Rightarrow> string list \<Rightarrow> path \<Rightarrow> fs \<times> (error + nat \<times> string list)" where
  "copy_pair images_dst labels_dst fs copied missing_labels img =
     (case with_suffix img ''.txt'' of
        Inl e \<Rightarrow> (fs, Inl e)
      | Inr txt \<Rightarrow>
          (let dst_img = images_dst @ [name img] in
           case copy2 fs img dst_img of
             Inl e \<Rightarrow> (fs, Inl e)
           | Inr fs1 \<Rightarrow>
               if path_exists fs1 txt then
                 (let dst_txt = labels_dst @ [name txt] in
                  case copy2 fs1 txt dst_txt of
                    Inl e \<Rightarrow> (fs1, Inl e)
                  | Inr fs2 \<Rightarrow> (fs2, Inr (copied + 1, missing_labels)))
               else (fs1, Inr (copied + 1, missing_labels @ [name img]))))"

fun copy_loop ::
  "path \<Rightarrow> path \<Rightarrow> fs \<Rightarrow> nat \<Rightarrow> string list \<Rightarrow> path list \<Rightarrow> fs \<times> (error + nat \<times> string list)" where
  "copy_loop images_dst labels_dst fs copied missing_labels [] =
     (fs, Inr (copied, missing_labels))"
| "copy_loop images_dst labels_dst fs copied missing_labels (img # rest) =
     (case copy_pair images_dst labels_dst fs copied missing_labels img of
        (fs', Inl e) \<Rightarrow> (fs', Inl e)
      | (fs', Inr (c, m)) \<Rightarrow> copy_loop images_dst labels_dst fs' c m rest)"

definition copy_pairs ::
  "fs \<Rightarrow> path list \<Rightarrow> path \<Rightarrow> path \<Rightarrow> fs \<times> (error + nat \<times> string list)" where
  "copy_pairs fs pairs images_dst labels_dst = copy_loop images_dst labels_dst fs 0 [] pairs"

definition data_yaml :: "'g runtime \<Rightarrow> path \<Rightarrow> nat \<Rightarrow> string list \<Rightarrow> string" where
  "data_yaml rt dest nc names =
     ''train: '' @ str_path (dest @ [''images'', ''train'']) @ [CHR 0x0A] @
     ''val: '' @ str_path (dest @ [''images'', ''val'']) @ [CHR 0x0A] @
     ''nc: '' @ str_nat nc @ [CHR 0x0A] @
     ''names: '' @ repr_list rt names @ [CHR 0x0A]"

definition write_data_yaml :: "'g runtime \<Rightarrow> fs \<Rightarrow> path \<Rightarrow> nat \<Rightarrow> string list \<Rightarrow> error + fs" where
  "write_data_yaml rt fs dest nc names =
     write_text fs (dest @ [''data.yaml'']) (data_yaml rt dest nc names)"

text \<open>
  What \<open>main\<close> prints, one constructor for each \<open>print\<close> call, holding the values
  printed.
\<close>

datatype msg =
    Source path
  | Destination path
  | NoImagesFound path
  | WarningNoClasses
  | Summary
  | TotalImages nat
  | TrainCopied nat nat
  | ValCopied nat nat
  | MissingHeader
  | MissingItem string
  | Wrote path
  | Done

text \<open>The parsed command line; \<open>arg_src\<close> and \<open>arg_dest\<close> are the resolved paths.\<close>

record args =
  arg_src :: path
  arg_dest :: path
  arg_val :: pyfloat
  arg_seed :: int

text \<open>
  \<open>main\<close> gives the file system it leaves, what it printed, and the exception that ended
  it (\<open>None\<close> when it returned).
\<close>

definition main :: "'g runtime \<Rightarrow> args \<Rightarrow> fs \<Rightarrow> fs \<times> msg list \<times> error option" where
  "main rt a fs =
     (let src = arg_src a;
          dest = arg_dest a;
          g = rng_seed rt (arg_seed a);
          out = [Source src, Destination dest]
      in
      case find_images fs src of
        Inl e \<Rightarrow> (fs, out, Some e)
      | Inr imgs \<Rightarrow>
          if imgs = [] then (fs, out @ [NoImagesFound src], None)
          else
            (case read_classes fs src of
               Inl e \<Rightarrow> (fs, out, Some e)
             | Inr cls \<Rightarrow>
                 (let out = (if cls = None then out @ [WarningNoClasses] else out);
                      classes = (case cls of None \<Rightarrow> [] | Some cs \<Rightarrow> cs)
                  in
                  case prepare_dirs fs dest of
                    (fs1, Some e) \<Rightarrow> (fs1, out, Some e)
                  | (fs1, None) \<Rightarrow>
                      (case split_train_val rt g (arg_val a) imgs of
                         Inl e \<Rightarrow> (fs1, out, Some e)
                       | Inr (imgs_sorted, train_imgs, val_imgs) \<Rightarrow>
                           (case copy_pairs fs1 train_imgs (dest @ [''images'', ''train''])
                                   (dest @ [''labels'', ''train'']) of
                              (fs2, Inl e) \<Rightarrow> (fs2, out, Some e)
                            | (fs2, Inr (copied_train, missing_train)) \<Rightarrow>
                                (case copy_pairs fs2 val_imgs (dest @ [''images'', ''val''])
                                        (dest @ [''labels'', ''val'']) of
                                   (fs3, Inl e) \<Rightarrow> (fs3, out, Some e)
                                 | (fs3, Inr (copied_val, missing_val)) \<Rightarrow>
                                     (case write_data_yaml rt fs3 dest (length classes) classes of
                                        Inl e \<Rightarrow> (fs3, out, Some e)
                                      | Inr fs4 \<Rightarrow>
                                          (fs4,
                                           out @
                                           [Summary, TotalImages (length imgs_sorted),
                                            TrainCopied copied_train (length missing_train),
                                            ValCopied copied_val (length missing_val)] @
                                           (if missing_train \<noteq> [] \<or> missing_val \<noteq> []
                                            then MissingHeader #
                                                 map MissingItem (missing_train @ missing_val)
                                            else []) @
                                           [Wrote (dest @ [''data.yaml'']), Done],
                                           None))))))))"

section \<open>The detection script\<close>

subsection \<open>Paths built from strings\<close>

text \<open>
  \<open>Path(s)\<close> on a POSIX system: the anchor is \<open>/\<close>, or \<open>//\<close> when the string starts
  with exactly two slashes, and empty for a relative path; the parts are the components
  between slashes, without the empty ones and the single dots. \<open>str\<close> joins them again and gives \<open>.\<close> for the empty path.
\<close>

record ppath =
  anchor :: string
  parts :: "string list"

fun split_from :: "string \<Rightarrow> string \<Rightarrow> string list" where
  "split_from cur [] = [cur]"
| "split_from cur (c # cs) =
     (if c = CHR ''/'' then cur # split_from [] cs else split_from (cur @ [c]) cs)"

definition parse_root :: "string \<Rightarrow> string" where
  "parse_root s =
     (if take 1 s = ''/'' then (if take 2 s = ''//'' \<and> take 3 s \<noteq> ''///'' then ''//'' else ''/'')
      else [])"

definition Path :: "string \<Rightarrow> ppath" where
  "Path s = \<lparr>anchor = parse_root s, parts = [c \<leftarrow> split_from [] s. c \<noteq> [] \<and> c \<noteq> ''.'']\<rparr>"

fun join_slash :: "string list \<Rightarrow> string" where
  "join_slash [] = []"
| "join_slash [x] = x"
| "join_slash (x # y # ys) = x @ ''/'' @ join_slash (y # ys)"

definition str_ppath :: "ppath \<Rightarrow> string" where
  "str_ppath p = (if anchor p = [] \<and> parts p = [] then ''.'' else anchor p @ join_slash (parts p))"

definition pparent :: "ppath \<Rightarrow> ppath" where
  "pparent p = p\<lparr>parts := butlast (parts p)\<rparr>"

definition pname :: "ppath \<Rightarrow> string" where
  "pname p = name (parts p)"

text \<open>\<open>p / s\<close>: a rooted \<open>s\<close> replaces \<open>p\<close>, another one is appended to it.\<close>

definition joinpath :: "ppath \<Rightarrow> string \<Rightarrow> ppath" where
  "joinpath p s =
     (let q = Path s in if anchor q \<noteq> [] then q else \<lparr>anchor = anchor p, parts = parts p @ parts q\<rparr>)"

text \<open>The argument \<open>output_path\<close> is a string when the caller gives it, a path otherwise.\<close>

datatype pathlike = Str string | PathObj ppath

fun py_str :: "pathlike \<Rightarrow> string" where
  "py_str (Str s) = s"
| "py_str (PathObj p) = str_ppath p"

subsection \<open>The libraries\<close>

text \<open>
  The result of one inference: the boxes (class id and confidence), the class names and
  the picture that \<open>plot\<close> draws.
\<close>

record 'img detection =
  det_boxes :: "(int \<times> pyfloat) list"
  det_names :: "(int \<times> string) list"
  det_plot :: 'img

text \<open>
  The libraries and the outside world the script calls, none of them part of the
  repository:
  \<^item> \<open>yolo\<close> is the constructor \<open>YOLO(model_path)\<close>;
  \<^item> \<open>requests_get\<close> is \<open>requests.get\<close> with the header and the timeout of the script:
    an exception when the server cannot be reached in time, the status code and the
    body otherwise;
  \<^item> \<open>imdecode\<close> is \<open>cv2.imdecode\<close> on the bytes received, \<open>imread\<close> is \<open>cv2.imread\<close>;
    \<open>None\<close> is what they give for what they cannot decode;
  \<^item> \<open>predict\<close> is \<open>model.predict\<close>;
  \<^item> \<open>imwrite\<close> is the outcome of \<open>cv2.imwrite\<close>: an exception, or whether the file was
    written.
\<close>

record ('img, 'model) world =
  yolo :: "string \<Rightarrow> error + 'model"
  requests_get :: "string \<Rightarrow> error + nat \<times> string"
  imdecode :: "string \<Rightarrow> error + 'img option"
  imread :: "string \<Rightarrow> 'img option"
  predict :: "'model \<Rightarrow> 'img \<Rightarrow> pyfloat \<Rightarrow> error + 'img detection list"
  imwrite :: "string \<Rightarrow> 'img \<Rightarrow> error + bool"

datatype dmsg = Detected nat string | BoxLine string pyfloat | SavedTo string

subsection \<open>The script\<close>

definition is_url :: "string \<Rightarrow> bool" where
  "is_url p = (prefix ''http://'' p \<or> prefix ''https://'' p)"

text \<open>\<open>Response.raise_for_status\<close> raises for the status codes from 400 to 599.\<close>

definition load_image_from_url :: "('img, 'model) world \<Rightarrow> string \<Rightarrow> error + 'img option" where
  "load_image_from_url w url =
     (case requests_get w url of
        Inl e \<Rightarrow> Inl e
      | Inr (status, content) \<Rightarrow>
          if 400 \<le> status \<and> status < 600 then Inl HTTPError else imdecode w content)"

definition detect_and_annotate ::
  "('img, 'model) world \<Rightarrow> string \<Rightarrow> string \<Rightarrow> pyfloat \<Rightarrow> error + 'img \<times> 'img detection" where
  "detect_and_annotate w image_path model_path conf =
     (case yolo w model_path of
        Inl e \<Rightarrow> Inl e
      | Inr model \<Rightarrow>
          (case (if is_url image_path then
                   (case load_image_from_url w image_path of
                      Inl e \<Rightarrow> Inl e
                    | Inr None \<Rightarrow> Inl ValueError
                    | Inr (Some img) \<Rightarrow> Inr img)
                 else
                   (case imread w image_path of
                      None \<Rightarrow> Inl ValueError
                    | Some img \<Rightarrow> Inr img)) of
             Inl e \<Rightarrow> Inl e
           | Inr img \<Rightarrow>
               (case predict w model img conf of
                  Inl e \<Rightarrow> Inl e
                | Inr results \<Rightarrow>
                    (case results of
                       [] \<Rightarrow> Inl IndexError
                     | r # rs \<Rightarrow> Inr (det_plot r, r)))))"

text \<open>The lines printed for the boxes, up to a class id that has no name.\<close>

fun box_lines :: "(int \<times> string) list \<Rightarrow> (int \<times> pyfloat) list \<Rightarrow> dmsg list \<times> error option" where
  "box_lines nms [] = ([], None)"
| "box_lines nms ((cls_id, conf_val) # bs) =
     (case map_of nms cls_id of
        None \<Rightarrow> ([], Some KeyError)
      | Some cls_name \<Rightarrow>
          (case box_lines nms bs of (ls, e) \<Rightarrow> (BoxLine cls_name conf_val # ls, e)))"

definition default_output :: "string \<Rightarrow> pathlike" where
  "default_output image_path =
     (if is_url image_path then PathObj (Path ''url_detected.jpg'')
      else
        (let image_path_obj = Path image_path in
         PathObj (joinpath (pparent image_path_obj)
           (path_stem (pname image_path_obj) @ ''_detected'' @ path_suffix (pname image_path_obj)))))"

text \<open>
  \<open>detect_and_save\<close> starts from the list of the files written so far and gives that
  list, what it printed, and the exception or the pair it returns.
\<close>

definition detect_and_save ::
  "('img, 'model) world \<Rightarrow> string \<Rightarrow> pathlike option \<Rightarrow> string \<Rightarrow> pyfloat \<Rightarrow> (string \<times> 'img) list \<Rightarrow>
     (string \<times> 'img) list \<times> dmsg list \<times> (error + string \<times> 'img detection)" where
  "detect_and_save w image_path output_path model_path conf written =
     (let output_path = (case output_path of None \<Rightarrow> default_output image_path | Some p \<Rightarrow> p) in
      case detect_and_annotate w image_path model_path conf of
        Inl e \<Rightarrow> (written, [], Inl e)
      | Inr (annotated_img, results) \<Rightarrow>
          (case imwrite w (py_str output_path) annotated_img of
             Inl e \<Rightarrow> (written, [], Inl e)
           | Inr ok \<Rightarrow>
               (let written = (if ok then written @ [(py_str output_path, annotated_img)] else written);
                    img_name = (if is_url image_path then image_path else pname (Path image_path));
                    out = [Detected (length (det_boxes results)) img_name]
                in
                case box_lines (det_names results) (det_boxes results) of
                  (ls, Some e) \<Rightarrow> (written, out @ ls, Inl e)
                | (ls, None) \<Rightarrow>
                    (written, out @ ls @ [SavedTo (py_str output_path)],
                     Inr (py_str output_path, results)))))"

section \<open>Concrete inputs\<close>

text \<open>
  A runtime for evaluating the definitions on concrete inputs: products that are exact
  in binary64 are left as they are, the generator always draws 0, and \<open>repr\<close> puts a
  string of letters between quotes.
\<close>

definition demo_runtime :: "unit runtime" where
  "demo_runtime =
     \<lparr>float_round = Finite, rng_seed = (\<lambda>s. ()), rng_below = (\<lambda>g n. (0, g)),
      repr_str = (\<lambda>s. [CHR 0x27] @ s @ [CHR 0x27])\<rparr>"

definition three_images :: "path list" where
  "three_images = [[''raw'', ''a.jpg''], [''raw'', ''b.jpg''], [''raw'', ''c.jpg'']]"

text \<open>
  A source directory with two pictures, one of them labelled, and a destination whose
  directories exist.
\<close>

definition raw_fs :: fs where
  "raw_fs =
     [([''raw''], Dir),
      ([''raw'', ''a.jpg''], File ''picture a''),
      ([''raw'', ''a.txt''], File ''0 0.5 0.5 0.2 0.2''),
      ([''raw'', ''b.jpg''], File ''picture b''),
      ([''out''], Dir),
      ([''out'', ''images''], Dir),
      ([''out'', ''labels''], Dir)]"

definition raw_fs_copied :: fs where
  "raw_fs_copied =
     [([''raw''], Dir),
      ([''raw'', ''a.jpg''], File ''picture a''),
      ([''raw'', ''a.txt''], File ''0 0.5 0.5 0.2 0.2''),
      ([''raw'', ''b.jpg''], File ''picture b''),
      ([''out''], Dir),
      ([''out'', ''images''], Dir),
      ([''out'', ''labels''], Dir),
      ([''out'', ''images'', ''a.jpg''], File ''picture a''),
      ([''out'', ''labels'', ''a.txt''], File ''0 0.5 0.5 0.2 0.2''),
      ([''out'', ''images'', ''b.jpg''], File ''picture b'')]"

text \<open>
  A source directory whose only entry is a subdirectory named like a picture, and a
  command line.
\<close>

definition dir_fs :: fs where
  "dir_fs = [([''raw''], Dir), ([''raw'', ''frames.jpg''], Dir)]"

definition demo_args :: args where
  "demo_args = \<lparr>arg_src = [''raw''], arg_dest = [''out''], arg_val = Finite (1 / 5), arg_seed = 42\<rparr>"

text \<open>
  The paths \<open>Path\<close> can build: one of the three anchors, and parts that are neither
  empty nor a single dot and hold no slash.
\<close>

definition wf_ppath :: "ppath \<Rightarrow> bool" where
  "wf_ppath q \<longleftrightarrow> anchor q \<in> {[], ''/'', ''//''} \<and>
     (\<forall>c \<in> set (parts q). c \<noteq> [] \<and> c \<noteq> ''.'' \<and> CHR ''/'' \<notin> set c)"

text \<open>
  Worlds for the detection script: one where every call succeeds, one without network,
  one whose server answers 404, and one whose server answers 300 with a picture.
\<close>

definition demo_world :: "(string, unit) world" where
  "demo_world =
     \<lparr>yolo = (\<lambda>model_path. Inr ()),
      requests_get = (\<lambda>url. Inr (200, ''jpeg bytes'')),
      imdecode = (\<lambda>content. Inr (Some content)),
      imread = (\<lambda>p. Some ''pixels''),
      predict = (\<lambda>model img conf.
        Inr [\<lparr>det_boxes = [(0, Finite (9 / 10))], det_names = [(0, ''girl'')], det_plot = ''boxed '' @ img\<rparr>]),
      imwrite = (\<lambda>p img. Inr True)\<rparr>"

definition offline_world :: "(string, unit) world" where
  "offline_world = demo_world\<lparr>requests_get := (\<lambda>url. Inl ConnectionError)\<rparr>"

definition not_found_world :: "(string, unit) world" where
  "not_found_world = demo_world\<lparr>requests_get := (\<lambda>url. Inr (404, ''Not Found''))\<rparr>"

definition multiple_choices_world :: "(string, unit) world" where
  "multiple_choices_world = demo_world\<lparr>requests_get := (\<lambda>url. Inr (300, ''jpeg bytes''))\<rparr>"

section \<open>Auxiliary notions for the proofs\<close>

text \<open>
  \<open>no_file_above fs d\<close>: neither \<open>d\<close> nor one of its ancestors is a regular file.
  \<open>adds_dirs D fs fs'\<close>: \<open>fs'\<close> is \<open>fs\<close> with new directories at some paths of \<open>D\<close> that did
  not exist.
\<close>

definition no_file_above :: "fs \<Rightarrow> path \<Rightarrow> bool" where
  "no_file_above fs d \<longleftrightarrow> (\<forall>q c. prefix q d \<longrightarrow> node_at fs q \<noteq> Some (File c))"

definition adds_dirs :: "path set \<Rightarrow> fs \<Rightarrow> fs \<Rightarrow> bool" where
  "adds_dirs D fs fs' \<longleftrightarrow>
     (\<forall>p. node_at fs' p = node_at fs p \<or> (node_at fs p = None \<and> node_at fs' p = Some Dir \<and> p \<in> D))"

text \<open>
  \<open>label_of img\<close> is \<open>img.with_suffix('.txt')\<close> for an image that has a name.
  \<open>copy_ready\<close> gathers what makes the copy loop run through: the two destinations are
  distinct directories, and every image is a regular file with a name, lies outside the
  destinations, has no directory in the place of its label, and meets no directory in
  the place of its copies. \<open>writes_only W fs fs'\<close>: \<open>fs'\<close> differs from \<open>fs\<close> at paths of \<open>W\<close>
  only, and has the same directories. \<open>targets\<close> are the paths the copy loop writes to.
  \<open>wf_fs\<close>: whatever exists lies in a directory.
\<close>

definition wf_fs :: "fs \<Rightarrow> bool" where
  "wf_fs fs \<longleftrightarrow> (\<forall>p. path_exists fs p \<longrightarrow> is_dir fs (parent p))"

definition label_of :: "path \<Rightarrow> path" where
  "label_of img = butlast img @ [path_stem (name img) @ ''.txt'']"

definition copy_ready :: "fs \<Rightarrow> path list \<Rightarrow> path \<Rightarrow> path \<Rightarrow> bool" where
  "copy_ready fs ps idst ldst \<longleftrightarrow>
     is_dir fs idst \<and> is_dir fs ldst \<and> idst \<noteq> ldst \<and>
     (\<forall>img \<in> set ps.
        is_file fs img \<and> name img \<noteq> [] \<and> \<not> is_dir fs (label_of img) \<and>
        \<not> prefix idst img \<and> \<not> prefix ldst img \<and>
        \<not> is_dir fs (idst @ [name img]) \<and> \<not> is_dir fs (ldst @ [name (label_of img)]))"

definition writes_only :: "path set \<Rightarrow> fs \<Rightarrow> fs \<Rightarrow> bool" where
  "writes_only W fs fs' \<longleftrightarrow>
     (\<forall>p. (p \<notin> W \<longrightarrow> node_at fs' p = node_at fs p) \<and> (is_dir fs' p \<longleftrightarrow> is_dir fs p))"

definition targets :: "path list \<Rightarrow> path \<Rightarrow> path \<Rightarrow> path set" where
  "targets ps idst ldst =
     (\<lambda>img. idst @ [name img]) ` set ps \<union> (\<lambda>img. ldst @ [name (label_of img)]) ` set ps"

text \<open>
  \<open>layout dest\<close> are the four directories of \<open>prepare_dirs\<close>. \<open>run_ready fs dest imgs\<close>
  describes a run into a new destination: the file system is a tree, nothing exists at
  or below \<open>dest\<close>, no ancestor of \<open>dest\<close> is a regular file, and every image is a regular
  file whose label path is no directory and no ancestor of \<open>dest\<close>.
\<close>

definition run_ready :: "fs \<Rightarrow> path \<Rightarrow> path list \<Rightarrow> bool" where
  "run_ready fs dest imgs \<longleftrightarrow>
     wf_fs fs \<and> no_file_above fs dest \<and> (\<forall>p. prefix dest p \<longrightarrow> node_at fs p = None) \<and>
     (\<forall>img \<in> set imgs.
        is_file fs img \<and> \<not> is_dir fs (label_of img) \<and> \<not> prefix (label_of img) dest)"

definition layout :: "path \<Rightarrow> path list" where
  "layout dest =
     [dest @ [''images'', ''train''], dest @ [''images'', ''val''],
      dest @ [''labels'', ''train''], dest @ [''labels'', ''val'']]"

text \<open>
  The specification's reading of \<open>readClassNames\<close>, in its own words: the lines of the
  file, blank lines skipped. It is compared with \<open>read_classes\<close> below.
\<close>

definition spec_class_lines :: "string \<Rightarrow> string list" where
  "spec_class_lines txt = [l \<leftarrow> splitlines txt. strip l \<noteq> []]"

text \<open>
  A \<open>classes.txt\<close> whose first line starts with a blank and whose second line is empty,
  the source directory with it, a command line whose destination does not exist yet,
  and a source directory with a single picture.
\<close>

definition classes_text :: string where
  "classes_text = '' girl'' @ [CHR 0x0A, CHR 0x0A] @ ''boy'' @ [CHR 0x0A]"

definition classes_fs :: fs where
  "classes_fs = raw_fs @ [([''raw'', ''classes.txt''], File classes_text)]"

definition new_dest_args :: args where
  "new_dest_args = \<lparr>arg_src = [''raw''], arg_dest = [''dataset''], arg_val = Finite (1 / 5), arg_seed = 42\<rparr>"

definition one_image_fs :: fs where
  "one_image_fs = [([''raw''], Dir), ([''raw'', ''a.jpg''], File ''picture a'')]"

text \<open>
  A destination left by an earlier run, with a picture in \<open>images/train\<close>, beside a
  source with a single picture.
\<close>

definition stale_fs :: fs where
  "stale_fs =
     [([''raw''], Dir),
      ([''raw'', ''a.jpg''], File ''picture a''),
      ([''dataset''], Dir),
      ([''dataset'', ''images''], Dir),
      ([''dataset'', ''images'', ''train''], Dir),
      ([''dataset'', ''images'', ''train'', ''old.jpg''], File ''old picture'')]"

section \<open>Properties of the split\<close>

lemma length_shuffle_loop: "length (shuffle_loop rt g xs k) = length xs"
  by (induction k arbitrary: g xs) (auto simp: Let_def split: prod.splits)

lemma length_shuffle: "length (shuffle rt g xs) = length xs"
  by (simp add: shuffle_def length_shuffle_loop)

lemma max_one_truncate:
  "max 1 (if 0 \<le> x then \<lfloor>x\<rfloor> else \<lceil>x::real\<rceil>) = max 1 \<lfloor>x\<rfloor>"
proof (cases "0 \<le> x")
  case True
  then show ?thesis by simp
next
  case False
  then have "\<lceil>x\<rceil> \<le> 0" and "\<lfloor>x\<rfloor> \<le> 0"
    by (simp_all add: ceiling_le_iff floor_le_iff)
  with False show ?thesis by simp
qed

text \<open>
  C1, as the code has it. The validation set is the slice \<open>imgs_sorted[:n_val]\<close>, so it
  holds \<open>min(n, max(1, floor(p)))\<close> images, where \<open>p\<close> is the floating-point product
  \<open>n * valFraction\<close> (finite, or \<open>int\<close> raises): for every non-empty list of \<open>n\<close> images
  the split is computed, the validation count is \<open>min(n, max(1, floor(p)))\<close>, the two
  counts add up to \<open>n\<close>, and the validation set has at least one image.
\<close>

theorem split_sizes:
  assumes "imgs \<noteq> []" and "float_mul rt (length imgs) val = Finite p"
  shows "\<exists>imgs_sorted train_imgs val_imgs.
     split_train_val rt g val imgs = Inr (imgs_sorted, train_imgs, val_imgs) \<and>
     int (length val_imgs) = min (int (length imgs)) (max 1 \<lfloor>p\<rfloor>) \<and>
     length train_imgs + length val_imgs = length imgs \<and> 1 \<le> length val_imgs"
proof -
  from assms(1) have n: "1 \<le> length imgs" by (cases imgs) simp_all
  define k where "k = max 1 \<lfloor>p\<rfloor>"
  define s where "s = shuffle rt g (sort imgs)"
  have r: "split_train_val rt g val imgs = Inr (s, drop (nat k) s, take (nat k) s)"
    using assms(2)
    by (simp add: split_train_val_def Let_def length_shuffle slice_to_def slice_from_def
        max_one_truncate k_def s_def)
  have "1 \<le> k" by (simp add: k_def)
  with n show ?thesis unfolding r k_def[symmetric]
    by (auto simp: s_def length_shuffle)
qed

theorem split_sizes_witness:
  "three_images \<noteq> [] \<and>
   float_mul demo_runtime (length three_images) (Finite (1 / 2)) = Finite (3 / 2) \<and>
   (\<exists>imgs_sorted train_imgs val_imgs.
     split_train_val demo_runtime () (Finite (1 / 2)) three_images =
       Inr (imgs_sorted, train_imgs, val_imgs) \<and>
     int (length val_imgs) = min (int (length three_images)) (max 1 \<lfloor>3 / 2 :: real\<rfloor>) \<and>
     length train_imgs + length val_imgs = length three_images \<and> 1 \<le> length val_imgs)"
proof -
  have a: "three_images \<noteq> []" by (simp add: three_images_def)
  have b: "float_mul demo_runtime (length three_images) (Finite (1 / 2)) = Finite (3 / 2)"
    by (simp add: three_images_def demo_runtime_def)
  from a b split_sizes [OF a b, of "()"] show ?thesis by blast
qed

text \<open>
  C1 as stated fails for a fraction above 1: with three images and \<open>--val 2.0\<close> the
  product is 6, the validation set holds the three images and not six.
\<close>

theorem split_val_count_counterexample:
  "split_train_val demo_runtime () (Finite 2) three_images =
     Inr ([[''raw'', ''b.jpg''], [''raw'', ''c.jpg''], [''raw'', ''a.jpg'']], [],
          [[''raw'', ''b.jpg''], [''raw'', ''c.jpg''], [''raw'', ''a.jpg'']]) \<and>
   int (length [[''raw'', ''b.jpg''], [''raw'', ''c.jpg''], [''raw'', ''a.jpg'']]) \<noteq>
     max 1 \<lfloor>real (length three_images) * 2\<rfloor>"
  by (simp add: split_train_val_def demo_runtime_def three_images_def shuffle_def
      slice_to_def slice_from_def Let_def)

text \<open>
  C2. The split is a function of the set of images and of the seed: two listings of the
  same images, in whatever order the directory gives them, are split alike under the
  same seed; and the split is the seeded shuffle of the sorted images, cut after the
  first \<open>max(1, floor(p))\<close>, \<open>p\<close> being the floating-point product \<open>n * valFraction\<close>.
\<close>

theorem split_deterministic:
  assumes "mset imgs1 = mset imgs2"
  shows "split_train_val rt (rng_seed rt seed) val imgs1 =
           split_train_val rt (rng_seed rt seed) val imgs2 \<and>
         (float_mul rt (length imgs1) val = Finite p \<longrightarrow>
            split_train_val rt (rng_seed rt seed) val imgs1 =
              Inr (shuffle rt (rng_seed rt seed) (sort imgs1),
                   drop (nat (max 1 \<lfloor>p\<rfloor>)) (shuffle rt (rng_seed rt seed) (sort imgs1)),
                   take (nat (max 1 \<lfloor>p\<rfloor>)) (shuffle rt (rng_seed rt seed) (sort imgs1))))"
proof -
  have "sort imgs1 = sort imgs2"
    by (rule properties_for_sort) (simp_all add: assms)
  then have same: "split_train_val rt (rng_seed rt seed) val imgs1 =
      split_train_val rt (rng_seed rt seed) val imgs2"
    by (simp add: split_train_val_def)
  have "split_train_val rt g val imgs1 =
      Inr (shuffle rt g (sort imgs1), drop (nat (max 1 \<lfloor>p\<rfloor>)) (shuffle rt g (sort imgs1)),
           take (nat (max 1 \<lfloor>p\<rfloor>)) (shuffle rt g (sort imgs1)))"
    if "float_mul rt (length imgs1) val = Finite p" for g
    using that
    by (simp add: split_train_val_def Let_def length_shuffle slice_to_def slice_from_def
        max_one_truncate)
  with same show ?thesis by blast
qed

theorem split_deterministic_witness:
  "mset [[''raw'', ''b.jpg''], [''raw'', ''a.jpg'']] = mset [[''raw'', ''a.jpg''], [''raw'', ''b.jpg'']] \<and>
   split_train_val demo_runtime (rng_seed demo_runtime 42) (Finite (1 / 5))
       [[''raw'', ''b.jpg''], [''raw'', ''a.jpg'']] =
     split_train_val demo_runtime (rng_seed demo_runtime 42) (Finite (1 / 5))
       [[''raw'', ''a.jpg''], [''raw'', ''b.jpg'']] \<and>
   split_train_val demo_runtime (rng_seed demo_runtime 42) (Finite (1 / 5))
       [[''raw'', ''b.jpg''], [''raw'', ''a.jpg'']] =
     Inr ([[''raw'', ''b.jpg''], [''raw'', ''a.jpg'']], [[''raw'', ''a.jpg'']], [[''raw'', ''b.jpg'']])"
proof -
  have m: "mset [[''raw'', ''b.jpg''], [''raw'', ''a.jpg'']] =
      mset [[''raw'', ''a.jpg''], [''raw'', ''b.jpg'']]"
    by simp
  have f: "float_mul demo_runtime (length [[''raw'', ''b.jpg''], [''raw'', ''a.jpg'']]) (Finite (1 / 5)) =
      Finite (2 / 5)"
    by (simp add: demo_runtime_def)
  have s: "shuffle demo_runtime (rng_seed demo_runtime 42)
      (sort [[''raw'', ''b.jpg''], [''raw'', ''a.jpg'']]) = [[''raw'', ''b.jpg''], [''raw'', ''a.jpg'']]"
    by (simp add: shuffle_def demo_runtime_def)
  note t = split_deterministic [OF m, of demo_runtime 42 "Finite (1 / 5)" "2 / 5"]
  from t have same: "split_train_val demo_runtime (rng_seed demo_runtime 42) (Finite (1 / 5))
       [[''raw'', ''b.jpg''], [''raw'', ''a.jpg'']] =
     split_train_val demo_runtime (rng_seed demo_runtime 42) (Finite (1 / 5))
       [[''raw'', ''a.jpg''], [''raw'', ''b.jpg'']]"
    by (rule conjunct1)
  from t f have "split_train_val demo_runtime (rng_seed demo_runtime 42) (Finite (1 / 5))
       [[''raw'', ''b.jpg''], [''raw'', ''a.jpg'']] =
     Inr (shuffle demo_runtime (rng_seed demo_runtime 42) (sort [[''raw'', ''b.jpg''], [''raw'', ''a.jpg'']]),
          drop (nat (max 1 \<lfloor>2 / 5 :: real\<rfloor>))
            (shuffle demo_runtime (rng_seed demo_runtime 42) (sort [[''raw'', ''b.jpg''], [''raw'', ''a.jpg'']])),
          take (nat (max 1 \<lfloor>2 / 5 :: real\<rfloor>))
            (shuffle demo_runtime (rng_seed demo_runtime 42) (sort [[''raw'', ''b.jpg''], [''raw'', ''a.jpg'']])))"
    by blast
  then have "split_train_val demo_runtime (rng_seed demo_runtime 42) (Finite (1 / 5))
       [[''raw'', ''b.jpg''], [''raw'', ''a.jpg'']] =
     Inr ([[''raw'', ''b.jpg''], [''raw'', ''a.jpg'']], [[''raw'', ''a.jpg'']], [[''raw'', ''b.jpg'']])"
    unfolding s by simp
  with m same show ?thesis by blast
qed

section \<open>Properties of the copy loop\<close>

lemma node_at_put:
  "node_at (put fs p n) q = (if q = [] then Some Dir else if q = p then Some n else node_at fs q)"
  by (simp add: node_at_def put_def update_conv')

lemma open_w_not_root: "open_w fs p = None \<Longrightarrow> p \<noteq> []"
  by (auto simp: open_w_def node_at_def)

lemma copy2_exists_mono:
  assumes "copy2 fs a b = Inr fs'" and "path_exists fs p"
  shows "path_exists fs' p"
  using assms
  by (auto simp: copy2_def Let_def path_exists_def node_at_put
      split: if_splits option.splits node.splits)

lemma copy2_dst_exists:
  assumes "copy2 fs a b = Inr fs'"
  shows "path_exists fs' b"
  using assms
  by (auto simp: copy2_def Let_def path_exists_def is_dir_def node_at_put
      split: if_splits option.splits node.splits)

lemma copy_pair_exists_mono:
  assumes "copy_pair idst ldst fs c m img = (fs', r)" and "path_exists fs p"
  shows "path_exists fs' p"
  using assms
  by (auto simp: copy_pair_def Let_def split: sum.splits if_splits dest: copy2_exists_mono)

lemma copy_loop_exists_mono:
  "copy_loop idst ldst fs c m ps = (fs', r) \<Longrightarrow> path_exists fs p \<Longrightarrow> path_exists fs' p"
proof (induction ps arbitrary: fs c m)
  case Nil
  then show ?case by simp
next
  case (Cons img ps)
  obtain fs1 r1 where s: "copy_pair idst ldst fs c m img = (fs1, r1)" by force
  from s Cons.prems(2) have e: "path_exists fs1 p" by (rule copy_pair_exists_mono)
  show ?case
  proof (cases r1)
    case (Inl e1)
    with Cons.prems(1) s e show ?thesis by simp
  next
    case (Inr cm)
    with Cons.prems(1) s have "copy_loop idst ldst fs1 (fst cm) (snd cm) ps = (fs', r)"
      by (cases cm) simp
    then show ?thesis using e by (rule Cons.IH)
  qed
qed

lemma copy_pair_Inr:
  assumes "copy_pair idst ldst fs c m img = (fs', Inr (c', m'))"
  shows "c' = c + 1 \<and> (m' = m \<or> m' = m @ [name img]) \<and> path_exists fs' (idst @ [name img])"
  using assms
  by (auto simp: copy_pair_def Let_def split: sum.splits if_splits
      dest: copy2_dst_exists copy2_exists_mono)

lemma copy_pair_missing:
  assumes "copy_pair idst ldst fs c m img = (fs', Inr (c', m'))"
    and "with_suffix img ''.txt'' = Inr txt" and "\<not> path_exists fs' txt"
  shows "m' = m @ [name img]"
  using assms
  by (auto simp: copy_pair_def Let_def split: sum.splits if_splits dest: copy2_exists_mono)

lemma copy_loop_Inr:
  "copy_loop idst ldst fs c m ps = (fs', Inr (c', m')) \<Longrightarrow>
     c' = c + length ps \<and> (\<exists>m''. m' = m @ m'' \<and> subseq m'' (map name ps))"
proof (induction ps arbitrary: fs c m)
  case Nil
  then show ?case by simp
next
  case (Cons img ps)
  from Cons.prems obtain fs1 c1 m1 where
    s: "copy_pair idst ldst fs c m img = (fs1, Inr (c1, m1))"
    and l: "copy_loop idst ldst fs1 c1 m1 ps = (fs', Inr (c', m'))"
    by (auto split: prod.splits sum.splits)
  from copy_pair_Inr [OF s] have c1: "c1 = c + 1" and m1: "m1 = m \<or> m1 = m @ [name img]"
    by simp_all
  from Cons.IH [OF l] obtain m'' where
    c': "c' = c1 + length ps" and m': "m' = m1 @ m''" and sub: "subseq m'' (map name ps)"
    by blast
  from m1 show ?case
  proof
    assume "m1 = m"
    with c1 c' m' sub show ?thesis by (auto intro: subseq_Cons')
  next
    assume "m1 = m @ [name img]"
    with c1 c' m' sub show ?thesis by (auto intro!: exI [of _ "name img # m''"])
  qed
qed


lemma copy_loop_count_other:
  "copy_loop idst ldst fs c m ps = (fs', Inr (c', m')) \<Longrightarrow> n \<notin> name ` set ps \<Longrightarrow>
     count_list m' n = count_list m n"
proof (induction ps arbitrary: fs c m)
  case Nil
  then show ?case by simp
next
  case (Cons img ps)
  from Cons.prems(1) obtain fs1 c1 m1 where
    s: "copy_pair idst ldst fs c m img = (fs1, Inr (c1, m1))"
    and l: "copy_loop idst ldst fs1 c1 m1 ps = (fs', Inr (c', m'))"
    by (auto split: prod.splits sum.splits)
  from copy_pair_Inr [OF s] Cons.prems(2) have "count_list m1 n = count_list m n"
    by auto
  moreover from Cons.prems(2) have "n \<notin> name ` set ps" by simp
  from Cons.IH [OF l this] have "count_list m' n = count_list m1 n" .
  ultimately show ?case by simp
qed

lemma copy_loop_count_missing:
  "copy_loop idst ldst fs c m ps = (fs', Inr (c', m')) \<Longrightarrow> img \<in> set ps \<Longrightarrow>
   distinct (map name ps) \<Longrightarrow> with_suffix img ''.txt'' = Inr txt \<Longrightarrow> \<not> path_exists fs' txt \<Longrightarrow>
     count_list m' (name img) = count_list m (name img) + 1 \<and> path_exists fs' (idst @ [name img])"
proof (induction ps arbitrary: fs c m)
  case Nil
  then show ?case by simp
next
  case (Cons q ps)
  from Cons.prems(1) obtain fs1 c1 m1 where
    s: "copy_pair idst ldst fs c m q = (fs1, Inr (c1, m1))"
    and l: "copy_loop idst ldst fs1 c1 m1 ps = (fs', Inr (c', m'))"
    by (auto split: prod.splits sum.splits)
  show ?case
  proof (cases "q = img")
    case True
    from Cons.prems(3) True have "name img \<notin> name ` set ps" by simp
    from copy_loop_count_other [OF l this] have 1: "count_list m' (name img) = count_list m1 (name img)" .
    from copy_pair_Inr [OF s] True have e: "path_exists fs1 (idst @ [name img])" by simp
    from l e have 2: "path_exists fs' (idst @ [name img])" by (rule copy_loop_exists_mono)
    have "\<not> path_exists fs1 txt"
      using Cons.prems(5) copy_loop_exists_mono [OF l] by blast
    with s True Cons.prems(4) have "m1 = m @ [name img]"
      by (auto intro: copy_pair_missing)
    with 1 2 show ?thesis by simp
  next
    case False
    with Cons.prems(2) have in_ps: "img \<in> set ps" by simp
    with Cons.prems(3) have "name q \<noteq> name img" by auto
    with copy_pair_Inr [OF s] have "count_list m1 (name img) = count_list m (name img)" by auto
    moreover from Cons.prems(3) have "distinct (map name ps)" by simp
    from Cons.IH [OF l in_ps this Cons.prems(4) Cons.prems(5)]
    have "count_list m' (name img) = count_list m1 (name img) + 1 \<and> path_exists fs' (idst @ [name img])" .
    ultimately show ?thesis by simp
  qed
qed

lemma copy_loop_all_exist:
  "copy_loop idst ldst fs c m ps = (fs', Inr (c', m')) \<Longrightarrow> img \<in> set ps \<Longrightarrow>
     path_exists fs' (idst @ [name img])"
proof (induction ps arbitrary: fs c m)
  case Nil
  then show ?case by simp
next
  case (Cons q ps)
  from Cons.prems(1) obtain fs1 c1 m1 where
    s: "copy_pair idst ldst fs c m q = (fs1, Inr (c1, m1))"
    and l: "copy_loop idst ldst fs1 c1 m1 ps = (fs', Inr (c', m'))"
    by (auto split: prod.splits sum.splits)
  show ?case
  proof (cases "q = img")
    case True
    with copy_pair_Inr [OF s] have "path_exists fs1 (idst @ [name img])" by simp
    with l show ?thesis by (rule copy_loop_exists_mono)
  next
    case False
    with Cons.prems(2) have "img \<in> set ps" by simp
    with l show ?thesis by (rule Cons.IH)
  qed
qed

section \<open>Properties of the scan\<close>

lemma iterdir_set:
  assumes "iterdir fs d = Inr ps"
  shows "set ps = {p. p \<noteq> [] \<and> parent p = d \<and> path_exists fs p} \<and> distinct ps"
proof -
  from assms have ps: "ps = [p \<leftarrow> remdups (map fst fs). p \<noteq> [] \<and> parent p = d]"
    by (auto simp: iterdir_def split: option.splits node.splits)
  have "p \<in> fst ` set fs \<longleftrightarrow> path_exists fs p" if "p \<noteq> []" for p
    using that by (simp add: path_exists_def node_at_def map_of_eq_None_iff)
  with ps show ?thesis by auto
qed

text \<open>
  What \<open>find_images\<close> returns: the entries of the source directory, files and
  subdirectories alike, whose suffix lowers to one of the three extensions, each once.
\<close>

lemma find_images_set:
  assumes "find_images fs src = Inr ps"
  shows "set ps = {p. p \<noteq> [] \<and> parent p = src \<and> path_exists fs p \<and>
            lower (path_suffix (name p)) \<in> set image_exts} \<and> distinct ps"
proof -
  from assms obtain qs where q: "iterdir fs src = Inr qs"
    and p: "ps = [p \<leftarrow> qs. lower (path_suffix (name p)) \<in> set image_exts]"
    by (auto simp: find_images_def split: sum.splits)
  from iterdir_set [OF q] p show ?thesis by auto
qed

text \<open>
  C6 fails on the code for a subdirectory named like a picture: \<open>find_images\<close> does not
  ask whether an entry is a file, and returns the directory \<open>raw/frames.jpg\<close>.
\<close>

theorem find_images_returns_directory:
  "find_images dir_fs [''raw''] = Inr [[''raw'', ''frames.jpg'']] \<and>
   is_dir dir_fs [''raw'', ''frames.jpg''] \<and> \<not> is_file dir_fs [''raw'', ''frames.jpg'']"
  by code_simp

section \<open>Properties of the run\<close>

text \<open>When \<open>find_images\<close> returns nothing, \<open>main\<close> reports it and leaves the file system as it is.\<close>

lemma main_no_images:
  assumes "find_images fs (arg_src a) = Inr []"
  shows "main rt a fs =
    (fs, [Source (arg_src a), Destination (arg_dest a), NoImagesFound (arg_src a)], None)"
  using assms by (simp add: main_def Let_def)

text \<open>
  C4 fails on the code for the same source: it holds no image file, yet \<open>main\<close> takes the
  subdirectory for an image, creates the four destination directories, and ends with
  the \<open>IsADirectoryError\<close> of \<open>shutil.copy2\<close>, without the report of an empty source.
\<close>

theorem main_without_image_files_creates_directories:
  "main demo_runtime demo_args dir_fs =
     (dir_fs @
      [([''out''], Dir), ([''out'', ''images''], Dir), ([''out'', ''images'', ''train''], Dir),
       ([''out'', ''images'', ''val''], Dir), ([''out'', ''labels''], Dir),
       ([''out'', ''labels'', ''train''], Dir), ([''out'', ''labels'', ''val''], Dir)],
      [Source [''raw''], Destination [''out''], WarningNoClasses], Some IsADirectoryError)"
  by code_simp

theorem main_without_image_files_creates_directories_witness:
  "\<not> path_exists dir_fs [''out''] \<and>
   is_dir (fst (main demo_runtime demo_args dir_fs)) [''out'', ''images'', ''train''] \<and>
   is_dir (fst (main demo_runtime demo_args dir_fs)) [''out'', ''labels'', ''val''] \<and>
   snd (snd (main demo_runtime demo_args dir_fs)) = Some IsADirectoryError"
proof -
  have a: "\<not> path_exists dir_fs [''out'']"
    by code_simp
  have b: "is_dir (dir_fs @
      [([''out''], Dir), ([''out'', ''images''], Dir), ([''out'', ''images'', ''train''], Dir),
       ([''out'', ''images'', ''val''], Dir), ([''out'', ''labels''], Dir),
       ([''out'', ''labels'', ''train''], Dir), ([''out'', ''labels'', ''val''], Dir)])
      [''out'', ''images'', ''train'']"
    by code_simp
  have c: "is_dir (dir_fs @
      [([''out''], Dir), ([''out'', ''images''], Dir), ([''out'', ''images'', ''train''], Dir),
       ([''out'', ''images'', ''val''], Dir), ([''out'', ''labels''], Dir),
       ([''out'', ''labels'', ''train''], Dir), ([''out'', ''labels'', ''val''], Dir)])
      [''out'', ''labels'', ''val'']"
    by code_simp
  from a b c show ?thesis
    by (simp add: main_without_image_files_creates_directories)
qed

section \<open>Properties of the detection script\<close>

text \<open>Parsing the string of a path gives the path back.\<close>

lemma split_from_no_slash: "CHR ''/'' \<notin> set s \<Longrightarrow> split_from cur s = [cur @ s]"
  by (induction s arbitrary: cur) auto

lemma split_from_slash:
  "CHR ''/'' \<notin> set a \<Longrightarrow> split_from cur (a @ CHR ''/'' # rest) = (cur @ a) # split_from [] rest"
  by (induction a arbitrary: cur) auto

lemma split_from_tail_no_slash:
  "CHR ''/'' \<notin> set cur \<Longrightarrow> c \<in> set (split_from cur s) \<Longrightarrow> CHR ''/'' \<notin> set c"
proof (induction s arbitrary: cur)
  case Nil
  then show ?case by simp
next
  case (Cons a s)
  show ?case
  proof (cases "a = CHR ''/''")
    case True
    with Cons.prems have "c = cur \<or> c \<in> set (split_from [] s)" by simp
    then show ?thesis
    proof
      assume "c = cur"
      with Cons.prems(1) show ?thesis by simp
    next
      assume "c \<in> set (split_from [] s)"
      with Cons.IH [of "[]"] show ?thesis by simp
    qed
  next
    case False
    with Cons.prems have "c \<in> set (split_from (cur @ [a]) s)" by simp
    with Cons.IH [of "cur @ [a]"] Cons.prems(1) False show ?thesis by simp
  qed
qed

lemma parse_root_cases: "parse_root s = [] \<or> parse_root s = ''/'' \<or> parse_root s = ''//''"
  by (simp add: parse_root_def)

lemma wf_Path: "wf_ppath (Path s)"
proof -
  have "CHR ''/'' \<notin> set c" if "c \<in> set (split_from [] s)" for c
    using split_from_tail_no_slash [of "[]" c s] that by simp
  with parse_root_cases [of s] show ?thesis
    by (auto simp: wf_ppath_def Path_def)
qed

lemma split_join:
  "\<forall>c \<in> set ps. CHR ''/'' \<notin> set c \<Longrightarrow> ps \<noteq> [] \<Longrightarrow> split_from [] (join_slash ps) = ps"
proof (induction ps rule: join_slash.induct)
  case 1
  then show ?case by simp
next
  case (2 x)
  then show ?case by (simp add: split_from_no_slash)
next
  case (3 x y ys)
  then show ?case by (simp add: split_from_slash)
qed

lemma filter_split_join:
  assumes "\<forall>c \<in> set ps. c \<noteq> [] \<and> c \<noteq> ''.'' \<and> CHR ''/'' \<notin> set c"
  shows "[c \<leftarrow> split_from [] (join_slash ps). c \<noteq> [] \<and> c \<noteq> ''.''] = ps"
proof (cases "ps = []")
  case True
  then show ?thesis by simp
next
  case False
  with assms have "split_from [] (join_slash ps) = ps" by (simp add: split_join)
  with assms show ?thesis by (simp add: filter_id_conv)
qed

lemma join_slash_hd:
  "ps \<noteq> [] \<Longrightarrow> hd ps \<noteq> [] \<Longrightarrow> join_slash ps \<noteq> [] \<and> hd (join_slash ps) = hd (hd ps)"
  by (induction ps rule: join_slash.induct) auto

lemma parse_root_str:
  assumes "wf_ppath q"
  shows "parse_root (str_ppath q) = anchor q"
proof (cases "parts q")
  case Nil
  with assms show ?thesis
    by (auto simp: wf_ppath_def str_ppath_def parse_root_def)
next
  case (Cons c cs)
  with assms have c: "c \<noteq> []" "hd c \<noteq> CHR ''/''"
    by (auto simp: wf_ppath_def neq_Nil_conv)
  from Cons c join_slash_hd [of "parts q"] obtain x xs where
    j: "join_slash (parts q) = x # xs" and x: "x \<noteq> CHR ''/''"
    by (cases "join_slash (parts q)") auto
  from assms have "anchor q = [] \<or> anchor q = ''/'' \<or> anchor q = ''//''"
    by (simp add: wf_ppath_def)
  then show ?thesis
    using Cons j x by (elim disjE) (simp_all add: str_ppath_def parse_root_def)
qed

lemma parts_str:
  assumes "wf_ppath q"
  shows "[c \<leftarrow> split_from [] (str_ppath q). c \<noteq> [] \<and> c \<noteq> ''.''] = parts q"
proof -
  from assms have ps: "\<forall>c \<in> set (parts q). c \<noteq> [] \<and> c \<noteq> ''.'' \<and> CHR ''/'' \<notin> set c"
    by (simp add: wf_ppath_def)
  from assms have "anchor q = [] \<or> anchor q = ''/'' \<or> anchor q = ''//''"
    by (simp add: wf_ppath_def)
  then show ?thesis
  proof (elim disjE)
    assume r: "anchor q = []"
    show ?thesis
    proof (cases "parts q = []")
      case True
      with r show ?thesis by (simp add: str_ppath_def)
    next
      case False
      with r filter_split_join [OF ps] show ?thesis by (simp add: str_ppath_def)
    qed
  next
    assume r: "anchor q = ''/''"
    with filter_split_join [OF ps] show ?thesis by (simp add: str_ppath_def)
  next
    assume r: "anchor q = ''//''"
    with filter_split_join [OF ps] show ?thesis by (simp add: str_ppath_def)
  qed
qed

lemma Path_str:
  assumes "wf_ppath q"
  shows "Path (str_ppath q) = q"
  using parse_root_str [OF assms] parts_str [OF assms] by (simp add: Path_def)

lemma stem_suffix: "path_stem nm @ path_suffix nm = nm"
  by (simp add: path_stem_def path_suffix_def split: option.splits)

lemma stem_no_slash: "CHR ''/'' \<notin> set nm \<Longrightarrow> CHR ''/'' \<notin> set (path_stem nm)"
  by (auto simp: path_stem_def split: option.splits dest: in_set_takeD)

lemma suffix_no_slash: "CHR ''/'' \<notin> set nm \<Longrightarrow> CHR ''/'' \<notin> set (path_suffix nm)"
  by (auto simp: path_suffix_def split: option.splits dest: in_set_dropD)

lemma pname_no_slash: "wf_ppath q \<Longrightarrow> CHR ''/'' \<notin> set (pname q)"
  by (auto simp: wf_ppath_def pname_def name_def)

lemma Path_single:
  assumes "CHR ''/'' \<notin> set c" and "c \<noteq> []" and "c \<noteq> ''.''"
  shows "Path c = \<lparr>anchor = [], parts = [c]\<rparr>"
proof -
  from assms(1,2) have "take 1 c \<noteq> ''/''" by (cases c) auto
  with assms show ?thesis by (simp add: Path_def parse_root_def split_from_no_slash)
qed

lemma default_output_local:
  assumes "\<not> is_url image_path"
  defines "nm \<equiv> pname (Path image_path)"
  defines "q \<equiv> \<lparr>anchor = anchor (Path image_path),
      parts = butlast (parts (Path image_path)) @ [path_stem nm @ ''_detected'' @ path_suffix nm]\<rparr>"
  shows "default_output image_path = PathObj q" and "wf_ppath q"
proof -
  have w: "wf_ppath (Path image_path)" by (rule wf_Path)
  then have n: "CHR ''/'' \<notin> set nm" unfolding nm_def by (rule pname_no_slash)
  define child where "child = path_stem nm @ ''_detected'' @ path_suffix nm"
  from n have c1: "CHR ''/'' \<notin> set child"
    by (simp add: child_def stem_no_slash suffix_no_slash)
  have c2: "child \<noteq> []" and c3: "child \<noteq> ''.''"
    by (auto simp: child_def append_eq_Cons_conv)
  from Path_single [OF c1 c2 c3] assms(1)
  show "default_output image_path = PathObj q"
    by (simp add: default_output_def Let_def joinpath_def pparent_def q_def nm_def child_def)
  have q: "q = \<lparr>anchor = anchor (Path image_path), parts = butlast (parts (Path image_path)) @ [child]\<rparr>"
    by (simp add: q_def child_def)
  have "c \<noteq> [] \<and> c \<noteq> ''.'' \<and> CHR ''/'' \<notin> set c" if "c \<in> set (butlast (parts (Path image_path)))" for c
    using w in_set_butlastD [OF that] by (simp add: wf_ppath_def)
  with w c1 c2 c3 show "wf_ppath q"
    unfolding q by (auto simp: wf_ppath_def)
qed

lemma detect_and_annotate_plot:
  "detect_and_annotate w image_path model_path conf = Inr (a, r) \<Longrightarrow> a = det_plot r"
  by (auto simp: detect_and_annotate_def split: sum.splits list.splits)

lemma detect_and_save_Inr:
  assumes "detect_and_save w image_path output_path model_path conf written = (written', out, Inr (p, res))"
  shows "p = py_str (case output_path of None \<Rightarrow> default_output image_path | Some op \<Rightarrow> op) \<and>
         (written' = written \<or> written' = written @ [(p, det_plot res)])"
  using assms
  by (auto simp: detect_and_save_def Let_def
      split: sum.splits prod.splits option.splits if_splits dest: detect_and_annotate_plot)

text \<open>
  C8. When \<open>detect_and_save\<close> is called without an output path and returns, the path
  it returns is \<open>url_detected.jpg\<close> for a URL; for a local path it lies in the directory
  of the input (same parent) and its name is the stem of the input's name, then
  \<open>_detected\<close>, then the suffix of the input's name, stem and suffix making up that name.
  It is the path the picture was written to, when \<open>cv2.imwrite\<close> wrote one.
\<close>

theorem default_output_path:
  assumes "detect_and_save w image_path None model_path conf written = (written', out, Inr (p, res))"
  shows "(is_url image_path \<longrightarrow> p = ''url_detected.jpg'') \<and>
         (\<not> is_url image_path \<longrightarrow>
            pparent (Path p) = pparent (Path image_path) \<and>
            pname (Path p) =
              path_stem (pname (Path image_path)) @ ''_detected'' @ path_suffix (pname (Path image_path)) \<and>
            path_stem (pname (Path image_path)) @ path_suffix (pname (Path image_path)) =
              pname (Path image_path)) \<and>
         (written' = written \<or> written' = written @ [(p, det_plot res)])"
proof -
  from detect_and_save_Inr [OF assms]
  have p: "p = py_str (default_output image_path)"
    and wr: "written' = written \<or> written' = written @ [(p, det_plot res)]"
    by (simp, blast)
  have url: "p = ''url_detected.jpg''" if "is_url image_path"
  proof -
    have "str_ppath (Path ''url_detected.jpg'') = ''url_detected.jpg''" by code_simp
    with p that show ?thesis by (simp add: default_output_def)
  qed
  have loc: "pparent (Path p) = pparent (Path image_path) \<and>
      pname (Path p) =
        path_stem (pname (Path image_path)) @ ''_detected'' @ path_suffix (pname (Path image_path))"
    if "\<not> is_url image_path"
  proof -
    define q where "q = \<lparr>anchor = anchor (Path image_path),
      parts = butlast (parts (Path image_path)) @
        [path_stem (pname (Path image_path)) @ ''_detected'' @ path_suffix (pname (Path image_path))]\<rparr>"
    from default_output_local [OF that] have d: "default_output image_path = PathObj q" and w: "wf_ppath q"
      by (simp_all add: q_def)
    from p d have "Path p = q" by (simp add: Path_str [OF w])
    then show ?thesis by (simp add: q_def pparent_def pname_def name_def)
  qed
  from url loc wr stem_suffix show ?thesis by blast
qed

theorem default_output_path_witness:
  "detect_and_save demo_world ''photos/cat.jpg'' None ''best.pt'' (Finite (1 / 4)) [] =
     ([(''photos/cat_detected.jpg'', ''boxed pixels'')],
      [Detected 1 ''cat.jpg'', BoxLine ''girl'' (Finite (9 / 10)), SavedTo ''photos/cat_detected.jpg''],
      Inr (''photos/cat_detected.jpg'',
           \<lparr>det_boxes = [(0, Finite (9 / 10))], det_names = [(0, ''girl'')], det_plot = ''boxed pixels''\<rparr>)) \<and>
   \<not> is_url ''photos/cat.jpg'' \<and>
   pparent (Path ''photos/cat_detected.jpg'') = pparent (Path ''photos/cat.jpg'') \<and>
   pname (Path ''photos/cat_detected.jpg'') =
     path_stem (pname (Path ''photos/cat.jpg'')) @ ''_detected'' @ path_suffix (pname (Path ''photos/cat.jpg'')) \<and>
   detect_and_save demo_world ''https://example.com/cat.jpg'' None ''best.pt'' (Finite (1 / 4)) [] =
     ([(''url_detected.jpg'', ''boxed jpeg bytes'')],
      [Detected 1 ''https://example.com/cat.jpg'', BoxLine ''girl'' (Finite (9 / 10)),
       SavedTo ''url_detected.jpg''],
      Inr (''url_detected.jpg'',
           \<lparr>det_boxes = [(0, Finite (9 / 10))], det_names = [(0, ''girl'')],
            det_plot = ''boxed jpeg bytes''\<rparr>)) \<and>
   is_url ''https://example.com/cat.jpg''"
proof -
  have r1: "detect_and_save demo_world ''photos/cat.jpg'' None ''best.pt'' (Finite (1 / 4)) [] =
     ([(''photos/cat_detected.jpg'', ''boxed pixels'')],
      [Detected 1 ''cat.jpg'', BoxLine ''girl'' (Finite (9 / 10)), SavedTo ''photos/cat_detected.jpg''],
      Inr (''photos/cat_detected.jpg'',
           \<lparr>det_boxes = [(0, Finite (9 / 10))], det_names = [(0, ''girl'')], det_plot = ''boxed pixels''\<rparr>))"
    by code_simp
  have u1: "\<not> is_url ''photos/cat.jpg''" by code_simp
  have r2: "detect_and_save demo_world ''https://example.com/cat.jpg'' None ''best.pt'' (Finite (1 / 4)) [] =
     ([(''url_detected.jpg'', ''boxed jpeg bytes'')],
      [Detected 1 ''https://example.com/cat.jpg'', BoxLine ''girl'' (Finite (9 / 10)),
       SavedTo ''url_detected.jpg''],
      Inr (''url_detected.jpg'',
           \<lparr>det_boxes = [(0, Finite (9 / 10))], det_names = [(0, ''girl'')],
            det_plot = ''boxed jpeg bytes''\<rparr>))"
    by code_simp
  have u2: "is_url ''https://example.com/cat.jpg''" by code_simp
  from default_output_path [OF r1] u1
  have 1: "pparent (Path ''photos/cat_detected.jpg'') = pparent (Path ''photos/cat.jpg'') \<and>
    pname (Path ''photos/cat_detected.jpg'') =
     path_stem (pname (Path ''photos/cat.jpg'')) @ ''_detected'' @ path_suffix (pname (Path ''photos/cat.jpg''))"
    by blast
  from default_output_path [OF r2] u2 have "''url_detected.jpg'' = ''url_detected.jpg''"
    by blast
  with r1 u1 1 r2 u2 show ?thesis by blast
qed

text \<open>
  C7, as the code has it. \<open>raise_for_status\<close> raises for the status codes 400 to 599 only.
  When the source is a URL that cannot be reached, or whose answer has such a status,
  \<open>detect_and_save\<close> ends with an exception, has written no file and printed nothing;
  once the model has loaded, the exception is the one of \<open>requests.get\<close>, or \<open>HTTPError\<close>.
\<close>

theorem detect_and_save_download_failure:
  assumes "is_url image_path"
    and "requests_get w image_path = Inl e \<or>
         (requests_get w image_path = Inr (status, content) \<and> 400 \<le> status \<and> status < 600)"
  shows "detect_and_save w image_path output_path model_path conf written =
     (written, [],
      Inl (case yolo w model_path of
             Inl e0 \<Rightarrow> e0
           | Inr model \<Rightarrow> (case requests_get w image_path of Inl e1 \<Rightarrow> e1 | Inr r \<Rightarrow> HTTPError)))"
proof -
  from assms(2) have "load_image_from_url w image_path =
      Inl (case requests_get w image_path of Inl e1 \<Rightarrow> e1 | Inr r \<Rightarrow> HTTPError)"
    by (auto simp: load_image_from_url_def)
  with assms(1) have "detect_and_annotate w image_path model_path conf =
      Inl (case yolo w model_path of
             Inl e0 \<Rightarrow> e0
           | Inr model \<Rightarrow> (case requests_get w image_path of Inl e1 \<Rightarrow> e1 | Inr r \<Rightarrow> HTTPError))"
    by (simp add: detect_and_annotate_def split: sum.splits)
  then show ?thesis by (simp add: detect_and_save_def Let_def)
qed

theorem detect_and_save_download_failure_witness:
  "is_url ''https://example.com/cat.jpg'' \<and>
   requests_get offline_world ''https://example.com/cat.jpg'' = Inl ConnectionError \<and>
   detect_and_save offline_world ''https://example.com/cat.jpg'' None ''best.pt'' (Finite (1 / 4)) [] =
     ([], [], Inl ConnectionError) \<and>
   requests_get not_found_world ''https://example.com/cat.jpg'' = Inr (404, ''Not Found'') \<and>
   (400::nat) \<le> 404 \<and> (404::nat) < 600 \<and>
   detect_and_save not_found_world ''https://example.com/cat.jpg'' None ''best.pt'' (Finite (1 / 4)) [] =
     ([], [], Inl HTTPError)"
proof -
  have u: "is_url ''https://example.com/cat.jpg''" by code_simp
  have a: "requests_get offline_world ''https://example.com/cat.jpg'' = Inl ConnectionError"
    by (simp add: offline_world_def)
  have b: "requests_get not_found_world ''https://example.com/cat.jpg'' = Inr (404, ''Not Found'')"
    by (simp add: not_found_world_def)
  have ya: "yolo offline_world ''best.pt'' = Inr ()"
    by (simp add: offline_world_def demo_world_def)
  have yb: "yolo not_found_world ''best.pt'' = Inr ()"
    by (simp add: not_found_world_def demo_world_def)
  from a have a': "requests_get offline_world ''https://example.com/cat.jpg'' = Inl ConnectionError \<or>
      (requests_get offline_world ''https://example.com/cat.jpg'' = Inr (0, []) \<and> 400 \<le> (0::nat) \<and> (0::nat) < 600)"
    by simp
  from b have b': "requests_get not_found_world ''https://example.com/cat.jpg'' = Inl ConnectionError \<or>
      (requests_get not_found_world ''https://example.com/cat.jpg'' = Inr (404, ''Not Found'') \<and>
       400 \<le> (404::nat) \<and> (404::nat) < 600)"
    by simp
  from detect_and_save_download_failure [OF u a', of None "''best.pt''" "Finite (1 / 4)" "[]"] a ya
  have 1: "detect_and_save offline_world ''https://example.com/cat.jpg'' None ''best.pt'' (Finite (1 / 4)) [] =
     ([], [], Inl ConnectionError)"
    by simp
  from detect_and_save_download_failure [OF u b', of None "''best.pt''" "Finite (1 / 4)" "[]"] b yb
  have 2: "detect_and_save not_found_world ''https://example.com/cat.jpg'' None ''best.pt'' (Finite (1 / 4)) [] =
     ([], [], Inl HTTPError)"
    by simp
  from u a 1 b 2 show ?thesis by simp
qed

text \<open>
  C7 as stated fails for an answer that is neither 2xx nor 4xx or 5xx: a server that
  answers 300 with a picture in the body is not an error for \<open>raise_for_status\<close>; the
  picture is decoded and the output file is written.
\<close>

theorem detect_and_save_non_2xx_counterexample:
  "is_url ''https://example.com/cat.jpg'' \<and>
   requests_get multiple_choices_world ''https://example.com/cat.jpg'' = Inr (300, ''jpeg bytes'') \<and>
   detect_and_save multiple_choices_world ''https://example.com/cat.jpg'' None ''best.pt'' (Finite (1 / 4)) [] =
     ([(''url_detected.jpg'', ''boxed jpeg bytes'')],
      [Detected 1 ''https://example.com/cat.jpg'', BoxLine ''girl'' (Finite (9 / 10)),
       SavedTo ''url_detected.jpg''],
      Inr (''url_detected.jpg'',
           \<lparr>det_boxes = [(0, Finite (9 / 10))], det_names = [(0, ''girl'')],
            det_plot = ''boxed jpeg bytes''\<rparr>))"
  by code_simp

section \<open>Creating the directories\<close>

lemma node_at_root [simp]: "node_at fs [] = Some Dir"
  by (simp add: node_at_def)

lemma adds_dirs_refl: "adds_dirs D fs fs"
  by (simp add: adds_dirs_def)

lemma adds_dirs_trans:
  "adds_dirs D fs fs1 \<Longrightarrow> adds_dirs E fs1 fs2 \<Longrightarrow> adds_dirs (D \<union> E) fs fs2"
  unfolding adds_dirs_def by (metis UnCI option.distinct(1))

lemma adds_dirs_mono: "adds_dirs D fs fs' \<Longrightarrow> D \<subseteq> E \<Longrightarrow> adds_dirs E fs fs'"
  unfolding adds_dirs_def by blast

lemma adds_dirs_no_file_above:
  "adds_dirs D fs fs' \<Longrightarrow> no_file_above fs d \<Longrightarrow> no_file_above fs' d"
  unfolding adds_dirs_def no_file_above_def by (metis node.distinct(1) option.inject)

lemma adds_dirs_is_dir: "adds_dirs D fs fs' \<Longrightarrow> is_dir fs p \<Longrightarrow> is_dir fs' p"
  unfolding adds_dirs_def is_dir_def by (metis option.distinct(1))

lemma os_mkdir_ok:
  assumes "\<not> path_exists fs p" and "is_dir fs (parent p)"
  shows "os_mkdir fs p = Inr (put fs p Dir)"
  using assms by (simp add: os_mkdir_def is_dir_def)

lemma put_dir_adds:
  assumes "\<not> path_exists fs p"
  shows "adds_dirs {p} fs (put fs p Dir)"
  using assms by (auto simp: adds_dirs_def node_at_put path_exists_def)

lemma wf_put_new:
  assumes "wf_fs fs" and "\<not> path_exists fs p" and "is_dir fs (parent p)"
  shows "wf_fs (put fs p n)"
  unfolding wf_fs_def
proof (intro allI impI)
  fix q
  assume q: "path_exists (put fs p n) q"
  have np: "parent q \<noteq> p"
  proof
    assume e: "parent q = p"
    from assms(2) have pn: "p \<noteq> []" by (auto simp: path_exists_def)
    have "q \<noteq> p"
    proof
      assume "q = p"
      with e have "butlast p = p" by (simp add: parent_def)
      then have "length (butlast p) = length p" by simp
      then have "length p - 1 = length p" by simp
      moreover from pn have "0 < length p" by simp
      ultimately show False by arith
    qed
    with q have "path_exists fs q" by (auto simp: path_exists_def node_at_put split: if_splits)
    with assms(1) e have "is_dir fs p" by (auto simp: wf_fs_def)
    with assms(2) show False by (simp add: is_dir_def path_exists_def)
  qed
  show "is_dir (put fs p n) (parent q)"
  proof (cases "q = p")
    case True
    with assms(3) np show ?thesis by (auto simp: is_dir_def node_at_put)
  next
    case False
    with q have "path_exists fs q" by (auto simp: path_exists_def node_at_put split: if_splits)
    with assms(1) have "is_dir fs (parent q)" by (simp add: wf_fs_def)
    with np show ?thesis by (auto simp: is_dir_def node_at_put)
  qed
qed

lemma mkdir_parents_ok:
  "no_file_above fs d \<Longrightarrow>
     \<exists>fs'. mkdir_parents fs d = Inr fs' \<and> is_dir fs' d \<and> adds_dirs {p. prefix p d} fs fs' \<and>
       (wf_fs fs \<longrightarrow> wf_fs fs')"
proof (induction fs d rule: mkdir_parents.induct)
  case (1 fs p)
  show ?case
  proof (cases "node_at fs p")
    case (Some n)
    with "1.prems" have d: "is_dir fs p"
      by (cases n) (auto simp: no_file_above_def is_dir_def)
    then have "os_mkdir fs p = Inl FileExistsError"
      by (simp add: os_mkdir_def path_exists_def is_dir_def)
    with d have "mkdir_parents fs p = Inr fs" by simp
    with d show ?thesis by (simp add: adds_dirs_refl)
  next
    case None
    then have ne: "\<not> path_exists fs p" and nr: "p \<noteq> []"
      by (auto simp: path_exists_def node_at_def)
    from nr have pp: "prefix (parent p) p"
      by (simp add: parent_def prefixI [of p "butlast p" "[last p]"])
    from "1.prems" pp have nf: "no_file_above fs (parent p)"
      unfolding no_file_above_def by (meson prefix_order.trans)
    show ?thesis
    proof (cases "node_at fs (parent p)")
      case (Some n)
      with "1.prems" pp have pd: "is_dir fs (parent p)"
        by (cases n) (auto simp: no_file_above_def is_dir_def)
      with ne have "os_mkdir fs p = Inr (put fs p Dir)" by (rule os_mkdir_ok)
      then have m: "mkdir_parents fs p = Inr (put fs p Dir)" by simp
      have "is_dir (put fs p Dir) p" using nr by (simp add: is_dir_def node_at_put)
      moreover have "adds_dirs {q. prefix q p} fs (put fs p Dir)"
        using put_dir_adds [OF ne] by (rule adds_dirs_mono) simp
      moreover have "wf_fs fs \<longrightarrow> wf_fs (put fs p Dir)"
        using ne pd by (simp add: wf_put_new)
      ultimately show ?thesis using m by simp
    next
      case pn: None
      with ne have o: "os_mkdir fs p = Inl FileNotFoundError"
        by (simp add: os_mkdir_def)
      from "1.IH" [OF o _ nr nf] obtain fs1 where
        r: "mkdir_parents fs (parent p) = Inr fs1" and d1: "is_dir fs1 (parent p)"
        and a1: "adds_dirs {q. prefix q (parent p)} fs fs1"
        and wf1: "wf_fs fs \<longrightarrow> wf_fs fs1"
        by auto
      have "\<not> prefix p (parent p)"
        using nr by (metis parent_def append_butlast_last_id prefix_order.antisym pp self_append_conv snoc_eq_iff_butlast) 
      with a1 None have ne1: "\<not> path_exists fs1 p"
        unfolding adds_dirs_def path_exists_def by (metis mem_Collect_eq)
      from ne1 d1 have o1: "os_mkdir fs1 p = Inr (put fs1 p Dir)" by (rule os_mkdir_ok)
      from o r o1 nr have m: "mkdir_parents fs p = Inr (put fs1 p Dir)"
        by (simp add: mkdir_exist_ok_def)
      have "is_dir (put fs1 p Dir) p" using nr by (simp add: is_dir_def node_at_put)
      moreover have sub: "{q. prefix q (parent p)} \<union> {p} \<subseteq> {q. prefix q p}"
        using pp by (auto intro: prefix_order.trans)
      have "adds_dirs ({q. prefix q (parent p)} \<union> {p}) fs (put fs1 p Dir)"
        using a1 put_dir_adds [OF ne1] by (rule adds_dirs_trans)
      then have "adds_dirs {q. prefix q p} fs (put fs1 p Dir)"
        using sub by (rule adds_dirs_mono)
      moreover have "wf_fs fs \<longrightarrow> wf_fs (put fs1 p Dir)"
        using wf1 ne1 d1 by (simp add: wf_put_new)
      ultimately show ?thesis using m by simp
    qed
  qed
qed

section \<open>When the copy loop runs through\<close>

lemma with_suffix_txt: "name img \<noteq> [] \<Longrightarrow> with_suffix img ''.txt'' = Inr (label_of img)"
  by (simp add: with_suffix_def label_of_def)

lemma name_label_of [simp]: "name (label_of img) = path_stem (name img) @ ''.txt''"
  by (simp add: name_def label_of_def)

lemma parent_snoc [simp]: "parent (d @ [n]) = d"
  by (simp add: parent_def)

lemma name_snoc [simp]: "name (d @ [n]) = n"
  by (simp add: name_def)

lemma label_of_not_below:
  assumes "\<not> prefix d img" and "name img \<noteq> []"
  shows "label_of img \<noteq> d @ [n]"
proof
  assume "label_of img = d @ [n]"
  then have "butlast img = d" by (simp add: label_of_def)
  moreover from assms(2) have "img \<noteq> []" by (auto simp: name_def)
  ultimately have "img = d @ [last img]" by (metis append_butlast_last_id)
  then have "prefix d img" by (metis prefixI)
  with assms(1) show False by simp
qed

lemma not_below: "\<not> prefix d img \<Longrightarrow> img \<noteq> d @ [n]"
  by auto

lemma copy2_file:
  assumes "node_at fs a = Some (File c)" and "\<not> is_dir fs b" and "is_dir fs (parent b)" and "a \<noteq> b"
  shows "copy2 fs a b = Inr (put fs b (File c))"
  using assms
  by (auto simp: copy2_def Let_def open_w_def is_dir_def split: option.splits node.splits)

lemma writes_only_put_file:
  assumes "\<not> is_dir fs p" and "p \<in> W" and "p \<noteq> []"
  shows "writes_only W fs (put fs p (File c))"
  using assms by (auto simp: writes_only_def node_at_put is_dir_def)

lemma writes_only_trans:
  "writes_only W fs fs1 \<Longrightarrow> writes_only V fs1 fs2 \<Longrightarrow> writes_only (W \<union> V) fs fs2"
  by (simp add: writes_only_def)

lemma writes_only_refl: "writes_only W fs fs"
  by (simp add: writes_only_def)

lemma writes_only_mono: "writes_only W fs fs' \<Longrightarrow> W \<subseteq> V \<Longrightarrow> writes_only V fs fs'"
  unfolding writes_only_def by blast

lemma copy_pair_ok:
  assumes r: "copy_ready fs [img] idst ldst"
  shows "\<exists>fs1. copy_pair idst ldst fs c m img =
            (fs1, Inr (c + 1, if path_exists fs (label_of img) then m else m @ [name img])) \<and>
          node_at fs1 (idst @ [name img]) = node_at fs img \<and>
          writes_only {idst @ [name img], ldst @ [name (label_of img)]} fs fs1"
proof -
  let ?di = "idst @ [name img]" and ?dl = "ldst @ [name (label_of img)]" and ?txt = "label_of img"
  from r have di: "is_dir fs idst" and dl: "is_dir fs ldst" and ne: "idst \<noteq> ldst"
    and f: "is_file fs img" and n: "name img \<noteq> []" and tl: "\<not> is_dir fs ?txt"
    and oi: "\<not> prefix idst img" and ol: "\<not> prefix ldst img"
    and ni: "\<not> is_dir fs ?di" and nl: "\<not> is_dir fs ?dl"
    by (simp_all add: copy_ready_def)
  from f obtain c0 where c0: "node_at fs img = Some (File c0)"
    by (auto simp: is_file_def split: option.splits node.splits)
  define fs1 where "fs1 = put fs ?di (File c0)"
  from oi have "img \<noteq> ?di" by (rule not_below)
  with c0 ni di have cp: "copy2 fs img ?di = Inr fs1"
    by (simp add: copy2_file fs1_def)
  have w1: "writes_only {?di, ?dl} fs fs1"
    unfolding fs1_def using ni by (rule writes_only_put_file) simp_all
  have n1: "node_at fs1 ?di = Some (File c0)"
    by (simp add: fs1_def node_at_put)
  from oi n have "?txt \<noteq> ?di" by (rule label_of_not_below)
  then have t1: "node_at fs1 ?txt = node_at fs ?txt"
    by (simp add: fs1_def node_at_put)
  show ?thesis
  proof (cases "path_exists fs ?txt")
    case False
    with t1 have "\<not> path_exists fs1 ?txt" by (simp add: path_exists_def)
    with cp n False have "copy_pair idst ldst fs c m img =
        (fs1, Inr (c + 1, if path_exists fs ?txt then m else m @ [name img]))"
      by (simp add: copy_pair_def with_suffix_txt Let_def)
    with n1 c0 w1 show ?thesis by auto
  next
    case True
    with tl obtain c1 where c1: "node_at fs ?txt = Some (File c1)"
      by (cases "node_at fs ?txt") (auto simp: path_exists_def is_dir_def, case_tac a, auto)
    define fs2 where "fs2 = put fs1 ?dl (File c1)"
    from ne have dd: "?dl \<noteq> ?di" by auto
    from w1 nl have nl1: "\<not> is_dir fs1 ?dl" by (simp add: writes_only_def)
    from w1 dl have dl1: "is_dir fs1 ldst" by (simp add: writes_only_def)
    from ol n have "?txt \<noteq> ?dl" by (rule label_of_not_below)
    with t1 c1 nl1 dl1 have cp2: "copy2 fs1 ?txt ?dl = Inr fs2"
      by (simp add: copy2_file fs2_def)
    from t1 True have "path_exists fs1 ?txt" by (simp add: path_exists_def)
    with cp cp2 n True have "copy_pair idst ldst fs c m img =
        (fs2, Inr (c + 1, if path_exists fs ?txt then m else m @ [name img]))"
      by (simp add: copy_pair_def with_suffix_txt Let_def)
    moreover have "node_at fs2 ?di = node_at fs img"
      using ne n1 c0 by (auto simp: fs2_def node_at_put)
    moreover have "writes_only {?di, ?dl} fs1 fs2"
      unfolding fs2_def using nl1 by (rule writes_only_put_file) simp_all
    with w1 have "writes_only ({?di, ?dl} \<union> {?di, ?dl}) fs fs2" by (rule writes_only_trans)
    then have "writes_only {?di, ?dl} fs fs2" by simp
    ultimately show ?thesis by blast
  qed
qed


lemma copy_ready_Cons:
  "copy_ready fs (img # rest) idst ldst \<longleftrightarrow>
     copy_ready fs [img] idst ldst \<and> copy_ready fs rest idst ldst"
  by (auto simp: copy_ready_def)

lemma copy_ready_writes:
  assumes "copy_ready fs ps idst ldst" and "writes_only W fs fs1" and "\<forall>img \<in> set ps. img \<notin> W"
  shows "copy_ready fs1 ps idst ldst"
proof -
  from assms(2) have d: "is_dir fs1 p \<longleftrightarrow> is_dir fs p" for p
    by (simp add: writes_only_def)
  from assms(2,3) have "node_at fs1 img = node_at fs img" if "img \<in> set ps" for img
    using that by (simp add: writes_only_def)
  then have "is_file fs1 img \<longleftrightarrow> is_file fs img" if "img \<in> set ps" for img
    using that by (simp add: is_file_def)
  with assms(1) d show ?thesis by (simp add: copy_ready_def)
qed

lemma copy_loop_ok:
  "copy_ready fs ps idst ldst \<Longrightarrow> distinct (map name ps) \<Longrightarrow>
   \<exists>fs'. copy_loop idst ldst fs c m ps =
      (fs', Inr (c + length ps, m @ [name img. img \<leftarrow> ps, \<not> path_exists fs (label_of img)])) \<and>
     (\<forall>img \<in> set ps. node_at fs' (idst @ [name img]) = node_at fs img) \<and>
     writes_only (targets ps idst ldst) fs fs'"
proof (induction ps arbitrary: fs c m)
  case Nil
  then show ?case by (simp add: writes_only_refl)
next
  case (Cons img rest)
  let ?W = "{idst @ [name img], ldst @ [name (label_of img)]}"
  from Cons.prems(1) have r1: "copy_ready fs [img] idst ldst" and rr: "copy_ready fs rest idst ldst"
    by (simp_all add: copy_ready_Cons [of fs img rest])
  from rr have ne: "idst \<noteq> ldst"
    and out: "\<And>i. i \<in> set rest \<Longrightarrow> \<not> prefix idst i \<and> \<not> prefix ldst i \<and> name i \<noteq> []"
    by (simp_all add: copy_ready_def)
  from copy_pair_ok [OF r1, of c m] obtain fs1 where
    s: "copy_pair idst ldst fs c m img =
          (fs1, Inr (c + 1, if path_exists fs (label_of img) then m else m @ [name img]))"
    and n1: "node_at fs1 (idst @ [name img]) = node_at fs img"
    and w1: "writes_only ?W fs fs1"
    by blast
  have notW: "\<forall>i \<in> set rest. i \<notin> ?W"
    using out not_below by fastforce
  have labW: "\<forall>i \<in> set rest. label_of i \<notin> ?W"
    using out label_of_not_below by fastforce
  from rr w1 notW have rr1: "copy_ready fs1 rest idst ldst" by (rule copy_ready_writes)
  from Cons.prems(2) have dr: "distinct (map name rest)" and nin: "name img \<notin> name ` set rest"
    by simp_all
  from Cons.IH [OF rr1 dr, of "c + 1" "if path_exists fs (label_of img) then m else m @ [name img]"]
  obtain fs' where
    l: "copy_loop idst ldst fs1 (c + 1) (if path_exists fs (label_of img) then m else m @ [name img]) rest =
          (fs', Inr (c + 1 + length rest,
             (if path_exists fs (label_of img) then m else m @ [name img]) @
             [name i. i \<leftarrow> rest, \<not> path_exists fs1 (label_of i)]))"
    and nr: "\<forall>i \<in> set rest. node_at fs' (idst @ [name i]) = node_at fs1 i"
    and wr: "writes_only (targets rest idst ldst) fs1 fs'"
    by blast
  from labW w1 have "path_exists fs1 (label_of i) \<longleftrightarrow> path_exists fs (label_of i)" if "i \<in> set rest" for i
    using that by (simp add: writes_only_def path_exists_def)
  then have same: "[name i. i \<leftarrow> rest, \<not> path_exists fs1 (label_of i)] =
      [name i. i \<leftarrow> rest, \<not> path_exists fs (label_of i)]"
    by (induction rest) auto
  from s l same have res: "copy_loop idst ldst fs c m (img # rest) =
      (fs', Inr (c + length (img # rest),
         m @ [name i. i \<leftarrow> img # rest, \<not> path_exists fs (label_of i)]))"
    by simp
  from nin ne have "idst @ [name img] \<notin> targets rest idst ldst"
    by (auto simp: targets_def)
  with wr n1 have first: "node_at fs' (idst @ [name img]) = node_at fs img"
    by (simp add: writes_only_def)
  from nr notW w1 have others: "\<forall>i \<in> set rest. node_at fs' (idst @ [name i]) = node_at fs i"
    by (simp add: writes_only_def)
  from w1 wr have "writes_only (?W \<union> targets rest idst ldst) fs fs'" by (rule writes_only_trans)
  then have "writes_only (targets (img # rest) idst ldst) fs fs'"
    by (rule writes_only_mono) (auto simp: targets_def)
  with res first others show ?case by auto
qed

section \<open>The shuffle permutes, the four directories get made\<close>

lemma mset_shuffle_loop:
  "k < length xs \<Longrightarrow> mset (shuffle_loop rt g xs k) = mset xs"
proof (induction k arbitrary: g xs)
  case 0
  then show ?case by simp
next
  case (Suc k)
  obtain r g' where rb: "rng_below rt g (Suc k + 1) = (r, g')" by force
  let ?j = "r mod (Suc k + 1)"
  let ?ys = "xs[Suc k := xs ! ?j, ?j := xs ! Suc k]"
  have j: "?j < length xs" using Suc.prems by (simp add: less_le_trans [OF mod_less_divisor])
  have "mset ?ys = mset xs" using Suc.prems j by (simp add: mset_swap)
  moreover have "k < length ?ys" using Suc.prems by simp
  then have "mset (shuffle_loop rt g' ?ys k) = mset ?ys" by (rule Suc.IH)
  ultimately show ?case using rb by (simp add: Let_def)
qed

lemma mset_shuffle: "mset (shuffle rt g xs) = mset xs"
proof (cases xs)
  case Nil
  then show ?thesis by (simp add: shuffle_def)
next
  case (Cons x ys)
  then show ?thesis by (simp add: shuffle_def mset_shuffle_loop)
qed

lemma split_train_val_parts:
  assumes "split_train_val rt g val imgs = Inr (s, t, v)"
  shows "mset s = mset imgs" and "\<exists>k. 1 \<le> k \<and> v = take k s \<and> t = drop k s"
proof -
  from assms obtain k where k: "py_int (float_mul rt (length (shuffle rt g (sort imgs))) val) = Inr k"
    and s: "s = shuffle rt g (sort imgs)"
    and v: "v = slice_to (max 1 k) s" and t: "t = slice_from (max 1 k) s"
    by (auto simp: split_train_val_def Let_def split: sum.splits)
  from s show "mset s = mset imgs" by (simp add: mset_shuffle)
  have "1 \<le> nat (max 1 k)" by simp
  moreover from v t have "v = take (nat (max 1 k)) s" "t = drop (nat (max 1 k)) s"
    by (simp_all add: slice_to_def slice_from_def)
  ultimately show "\<exists>k. 1 \<le> k \<and> v = take k s \<and> t = drop k s" by blast
qed

lemma mkdir_all_ok:
  "\<forall>d \<in> set ds. no_file_above fs d \<Longrightarrow>
     \<exists>fs'. mkdir_all fs ds = (fs', None) \<and> (\<forall>d \<in> set ds. is_dir fs' d) \<and>
        adds_dirs {p. \<exists>d \<in> set ds. prefix p d} fs fs' \<and> (wf_fs fs \<longrightarrow> wf_fs fs')"
proof (induction ds arbitrary: fs)
  case Nil
  then show ?case by (simp add: adds_dirs_refl)
next
  case (Cons d ds)
  from Cons.prems have "no_file_above fs d" by simp
  from mkdir_parents_ok [OF this] obtain fs1 where
    m: "mkdir_parents fs d = Inr fs1" and d1: "is_dir fs1 d"
    and a1: "adds_dirs {p. prefix p d} fs fs1" and w1: "wf_fs fs \<longrightarrow> wf_fs fs1"
    by blast
  from Cons.prems a1 have "\<forall>e \<in> set ds. no_file_above fs1 e"
    by (auto intro: adds_dirs_no_file_above)
  from Cons.IH [OF this] obtain fs' where
    r: "mkdir_all fs1 ds = (fs', None)" and dr: "\<forall>e \<in> set ds. is_dir fs' e"
    and ar: "adds_dirs {p. \<exists>e \<in> set ds. prefix p e} fs1 fs'" and wr: "wf_fs fs1 \<longrightarrow> wf_fs fs'"
    by blast
  from m r have "mkdir_all fs (d # ds) = (fs', None)" by simp
  moreover from ar d1 have "is_dir fs' d" by (rule adds_dirs_is_dir)
  moreover from a1 ar have "adds_dirs ({p. prefix p d} \<union> {p. \<exists>e \<in> set ds. prefix p e}) fs fs'"
    by (rule adds_dirs_trans)
  then have "adds_dirs {p. \<exists>e \<in> set (d # ds). prefix p e} fs fs'"
    by (rule adds_dirs_mono) auto
  ultimately show ?case using dr w1 wr by auto
qed

section \<open>A run into a new destination\<close>

lemma path_suffix_Nil [simp]: "path_suffix [] = []"
  by (simp add: path_suffix_def rfind_dot_def)

lemma image_name_not_empty: "lower (path_suffix nm) \<in> set image_exts \<Longrightarrow> nm \<noteq> []"
  by (auto simp: image_exts_def lower_def)

lemma find_images_names:
  assumes "find_images fs src = Inr imgs"
  shows "distinct (map name imgs)" and "\<forall>img \<in> set imgs. name img \<noteq> []"
proof -
  from find_images_set [OF assms] have
    s: "\<forall>img \<in> set imgs. img \<noteq> [] \<and> parent img = src \<and> lower (path_suffix (name img)) \<in> set image_exts"
    and d: "distinct imgs"
    by auto
  from s show "\<forall>img \<in> set imgs. name img \<noteq> []"
    by (auto dest: image_name_not_empty)
  have "inj_on name (set imgs)"
  proof (rule inj_onI)
    fix x y
    assume "x \<in> set imgs" "y \<in> set imgs" "name x = name y"
    with s have "x \<noteq> []" "y \<noteq> []" "butlast x = butlast y" "last x = last y"
      by (auto simp: parent_def name_def)
    then show "x = y" by (metis append_butlast_last_id)
  qed
  with d show "distinct (map name imgs)" by (simp add: distinct_map)
qed

lemma prefix_snoc2:
  "prefix q (d @ [x, y]) \<longleftrightarrow> prefix q d \<or> q = d @ [x] \<or> q = d @ [x, y]"
proof -
  have "d @ [x, y] = (d @ [x]) @ [y]" by simp
  then have "prefix q (d @ [x, y]) \<longleftrightarrow> q = (d @ [x]) @ [y] \<or> prefix q (d @ [x])"
    by (simp only: prefix_snoc)
  then show ?thesis by (auto simp: prefix_snoc)
qed

lemma no_file_above_layout:
  assumes "no_file_above fs dest" and "\<forall>p. prefix dest p \<longrightarrow> node_at fs p = None"
  shows "\<forall>d \<in> set (layout dest). no_file_above fs d"
  using assms
  by (auto simp: layout_def no_file_above_def prefix_snoc2)

lemma prepare_dirs_ok:
  assumes "no_file_above fs dest" and "\<forall>p. prefix dest p \<longrightarrow> node_at fs p = None"
  shows "\<exists>fs1. prepare_dirs fs dest = (fs1, None) \<and> (\<forall>d \<in> set (layout dest). is_dir fs1 d) \<and>
     adds_dirs {p. \<exists>d \<in> set (layout dest). prefix p d} fs fs1 \<and> (wf_fs fs \<longrightarrow> wf_fs fs1)"
  using mkdir_all_ok [OF no_file_above_layout [OF assms]]
  by (simp add: prepare_dirs_def layout_def)

lemma in_layout_prefix:
  "(\<exists>d \<in> set (layout dest). prefix q d) \<longleftrightarrow>
     prefix q dest \<or> q = dest @ [''images''] \<or> q = dest @ [''labels''] \<or> q \<in> set (layout dest)"
  by (auto simp: layout_def prefix_snoc2)


lemma adds_dirs_same:
  assumes "adds_dirs D fs fs'" and "q \<notin> D"
  shows "node_at fs' q = node_at fs q"
proof -
  from assms(1) have "node_at fs' q = node_at fs q \<or>
      (node_at fs q = None \<and> node_at fs' q = Some Dir \<and> q \<in> D)"
    unfolding adds_dirs_def by (rule spec)
  with assms(2) show ?thesis by simp
qed

lemma adds_dirs_existing:
  assumes "adds_dirs D fs fs'" and "node_at fs q \<noteq> None"
  shows "node_at fs' q = node_at fs q"
proof -
  from assms(1) have "node_at fs' q = node_at fs q \<or>
      (node_at fs q = None \<and> node_at fs' q = Some Dir \<and> q \<in> D)"
    unfolding adds_dirs_def by (rule spec)
  with assms(2) show ?thesis by auto
qed

lemma deep_not_layout: "\<not> (\<exists>d \<in> set (layout dest). prefix (dest @ [x, y, z]) d)"
  by (auto simp: in_layout_prefix layout_def)

lemma data_yaml_not_layout: "\<not> (\<exists>d \<in> set (layout dest). prefix (dest @ [''data.yaml'']) d)"
  by (auto simp: in_layout_prefix layout_def)

lemma run_ready_image:
  assumes rr: "run_ready fs dest imgs" and i: "img \<in> set imgs" and n: "name img \<noteq> []"
  shows "\<not> prefix dest img" and "\<not> prefix dest (label_of img)"
    and "\<not> (\<exists>d \<in> set (layout dest). prefix (label_of img) d)"
proof -
  from rr i have f: "is_file fs img" and l: "\<not> prefix (label_of img) dest"
    and fresh: "\<And>p. prefix dest p \<Longrightarrow> node_at fs p = None"
    by (simp_all add: run_ready_def)
  from f have ex: "node_at fs img \<noteq> None"
    by (auto simp: is_file_def split: option.splits)
  with fresh [of img] show a: "\<not> prefix dest img" by auto
  from n have ne: "img \<noteq> []" by (auto simp: name_def)
  show b: "\<not> prefix dest (label_of img)"
  proof
    assume "prefix dest (label_of img)"
    then have "dest = label_of img \<or> prefix dest (butlast img)"
      by (auto simp: label_of_def prefix_snoc)
    then show False
    proof
      assume "dest = label_of img"
      with l show False by simp
    next
      assume "prefix dest (butlast img)"
      moreover from ne have "prefix (butlast img) img"
        by (metis append_butlast_last_id prefixI)
      ultimately have "prefix dest img" by (rule prefix_order.trans)
      with a show False by simp
    qed
  qed
  show "\<not> (\<exists>d \<in> set (layout dest). prefix (label_of img) d)"
  proof
    assume "\<exists>d \<in> set (layout dest). prefix (label_of img) d"
    then have "prefix (label_of img) dest \<or> label_of img = dest @ [''images''] \<or>
        label_of img = dest @ [''labels''] \<or> label_of img \<in> set (layout dest)"
      by (simp only: in_layout_prefix)
    then have "prefix (label_of img) dest \<or> (\<exists>xs. label_of img = dest @ xs)"
      unfolding layout_def by auto
    with l b show False by auto
  qed
qed

lemma ready_after_dirs:
  assumes rr: "run_ready fs dest imgs"
    and ad: "adds_dirs {p. \<exists>d \<in> set (layout dest). prefix p d} fs fs1"
    and dirs: "\<forall>d \<in> set (layout dest). is_dir fs1 d"
    and sub: "set ps \<subseteq> set imgs" and nm: "\<forall>img \<in> set imgs. name img \<noteq> []"
    and part: "part = ''train'' \<or> part = ''val''"
  shows "copy_ready fs1 ps (dest @ [''images'', part]) (dest @ [''labels'', part])"
proof -
  let ?idst = "dest @ [''images'', part]" and ?ldst = "dest @ [''labels'', part]"
  from rr have fresh: "\<And>p. prefix dest p \<Longrightarrow> node_at fs p = None"
    by (simp add: run_ready_def)
  from dirs part have d: "is_dir fs1 ?idst" "is_dir fs1 ?ldst"
    by (auto simp: layout_def)
  have deep: "\<not> is_dir fs1 (dest @ [x, y, z])" for x y z
  proof -
    have "node_at fs1 (dest @ [x, y, z]) = node_at fs (dest @ [x, y, z])"
      using ad by (rule adds_dirs_same) (simp add: deep_not_layout)
    with fresh [of "dest @ [x, y, z]"] show ?thesis by (simp add: is_dir_def)
  qed
  have img: "is_file fs1 img \<and> name img \<noteq> [] \<and> \<not> is_dir fs1 (label_of img) \<and>
        \<not> prefix ?idst img \<and> \<not> prefix ?ldst img \<and>
        \<not> is_dir fs1 (?idst @ [name img]) \<and> \<not> is_dir fs1 (?ldst @ [name (label_of img)])"
    if i: "img \<in> set ps" for img
  proof -
    from i sub have i': "img \<in> set imgs" by blast
    with nm have n: "name img \<noteq> []" by simp
    from rr i' have f: "is_file fs img" and l: "\<not> is_dir fs (label_of img)"
      by (simp_all add: run_ready_def)
    from f have "node_at fs img \<noteq> None" by (auto simp: is_file_def split: option.splits)
    with ad have "node_at fs1 img = node_at fs img" by (rule adds_dirs_existing)
    with f have 1: "is_file fs1 img" by (simp add: is_file_def)
    from run_ready_image(3) [OF rr i' n] ad
    have "node_at fs1 (label_of img) = node_at fs (label_of img)"
      by (simp add: adds_dirs_same)
    with l have 2: "\<not> is_dir fs1 (label_of img)" by (simp add: is_dir_def)
    from run_ready_image(1) [OF rr i' n] have 3: "\<not> prefix ?idst img" "\<not> prefix ?ldst img"
      by (auto dest: append_prefixD)
    from deep [of "''images''" part "name img"] deep [of "''labels''" part "name (label_of img)"]
    have 4: "\<not> is_dir fs1 (?idst @ [name img])" "\<not> is_dir fs1 (?ldst @ [name (label_of img)])"
      by simp_all
    from 1 n 2 3 4 show ?thesis by blast
  qed
  have "dest @ [''images'', part] \<noteq> dest @ [''labels'', part]" by simp
  with d img show ?thesis unfolding copy_ready_def by blast
qed

lemma targets_below:
  assumes "q \<in> targets ps (dest @ [x, y]) (dest @ [x', y'])"
  shows "prefix dest q"
  using assms by (auto simp: targets_def)

lemma missing_cong:
  "\<forall>i \<in> set ps. P i \<longleftrightarrow> Q i \<Longrightarrow> [name i. i \<leftarrow> ps, \<not> P i] = [name i. i \<leftarrow> ps, \<not> Q i]"
  by (induction ps) auto

lemma distinct_names_parts:
  assumes "distinct (map name imgs)" and "mset s = mset imgs"
  shows "distinct (map name (take k s))" and "distinct (map name (drop k s))"
proof -
  from assms(2) have "mset (map name s) = mset (map name imgs)" by simp
  with assms(1) have d: "distinct (map name s)" by (metis mset_eq_imp_distinct_iff)
  from d show "distinct (map name (take k s))" by (simp add: take_map [symmetric])
  from d show "distinct (map name (drop k s))" by (simp add: drop_map [symmetric])
qed

text \<open>
  The whole run. When the source has images, \<open>classes.txt\<close> can be read or is absent,
  the fraction gives a split and the destination is new, \<open>main\<close> returns normally; it
  prints the summary, leaves the four directories and the manifest, the copy of every
  training image in \<open>images/train\<close> and of every validation image in \<open>images/val\<close>,
  and changes nothing else but the directories it had to make and the copies.
\<close>

lemma main_completes:
  fixes a :: args
  defines "src \<equiv> arg_src a" and "dest \<equiv> arg_dest a"
  assumes fi: "find_images fs src = Inr imgs" and ne: "imgs \<noteq> []"
    and rc: "read_classes fs src = Inr cls"
    and sp: "split_train_val rt (rng_seed rt (arg_seed a)) (arg_val a) imgs = Inr (s, t, v)"
    and rr: "run_ready fs dest imgs"
  defines "mt \<equiv> [name i. i \<leftarrow> t, \<not> path_exists fs (label_of i)]"
    and "mv \<equiv> [name i. i \<leftarrow> v, \<not> path_exists fs (label_of i)]"
    and "classes \<equiv> (case cls of None \<Rightarrow> [] | Some cs \<Rightarrow> cs)"
  shows "\<exists>fs'. main rt a fs =
      (fs',
       [Source src, Destination dest] @ (if cls = None then [WarningNoClasses] else []) @
       [Summary, TotalImages (length s), TrainCopied (length t) (length mt),
        ValCopied (length v) (length mv)] @
       (if mt \<noteq> [] \<or> mv \<noteq> [] then MissingHeader # map MissingItem (mt @ mv) else []) @
       [Wrote (dest @ [''data.yaml'']), Done],
       None) \<and>
     (\<forall>d \<in> set (layout dest). is_dir fs' d) \<and>
     node_at fs' (dest @ [''data.yaml'']) = Some (File (data_yaml rt dest (length classes) classes)) \<and>
     (\<forall>img \<in> set t. node_at fs' (dest @ [''images'', ''train'', name img]) = node_at fs img) \<and>
     (\<forall>img \<in> set v. node_at fs' (dest @ [''images'', ''val'', name img]) = node_at fs img) \<and>
     (\<forall>q. q \<notin> targets t (dest @ [''images'', ''train'']) (dest @ [''labels'', ''train'']) \<union>
             targets v (dest @ [''images'', ''val'']) (dest @ [''labels'', ''val'']) \<union>
             {dest @ [''data.yaml'']} \<longrightarrow>
          node_at fs' q = node_at fs q \<or>
          (node_at fs q = None \<and> node_at fs' q = Some Dir \<and> (\<exists>d \<in> set (layout dest). prefix q d)))"
proof -
  let ?ti = "dest @ [''images'', ''train'']" and ?tl = "dest @ [''labels'', ''train'']"
  let ?vi = "dest @ [''images'', ''val'']" and ?vl = "dest @ [''labels'', ''val'']"
  let ?y = "dest @ [''data.yaml'']"
  let ?D = "{p. \<exists>d \<in> set (layout dest). prefix p d}"
  from find_images_names [OF fi] have dn: "distinct (map name imgs)"
    and nm: "\<forall>img \<in> set imgs. name img \<noteq> []"
    by simp_all
  from split_train_val_parts [OF sp] obtain k where ms: "mset s = mset imgs"
    and v: "v = take k s" and t: "t = drop k s"
    by blast
  from ms have ss: "set s = set imgs" by (rule mset_eq_setD)
  from v t ss have sv: "set v \<subseteq> set imgs" and st: "set t \<subseteq> set imgs"
    by (auto dest: in_set_takeD in_set_dropD)
  from distinct_names_parts [OF dn ms] v t have dv: "distinct (map name v)" and dt: "distinct (map name t)"
    by simp_all
  from rr have wf: "wf_fs fs" and nfa: "no_file_above fs dest"
    and fresh: "\<forall>p. prefix dest p \<longrightarrow> node_at fs p = None"
    by (simp_all add: run_ready_def)
  from prepare_dirs_ok [OF nfa fresh] wf obtain fs1 where
    pd: "prepare_dirs fs dest = (fs1, None)" and dirs1: "\<forall>d \<in> set (layout dest). is_dir fs1 d"
    and ad: "adds_dirs ?D fs fs1" and wf1: "wf_fs fs1"
    by blast
  \<comment> \<open>what the images and their labels look like in the states of the run\<close>
  have out_t: "q \<notin> targets t ?ti ?tl" if "\<not> prefix dest q" for q
    using that targets_below [of q t dest] by blast
  have out_v: "q \<notin> targets v ?vi ?vl" if "\<not> prefix dest q" for q
    using that targets_below [of q v dest] by blast
  have img_out: "\<not> prefix dest img" and lab_out: "\<not> prefix dest (label_of img)"
    and lab1: "node_at fs1 (label_of img) = node_at fs (label_of img)"
    and img1: "node_at fs1 img = node_at fs img"
    if "img \<in> set imgs" for img
  proof -
    from that nm have n: "name img \<noteq> []" by simp
    from run_ready_image [OF rr that n] show "\<not> prefix dest img" "\<not> prefix dest (label_of img)"
      by simp_all
    from run_ready_image(3) [OF rr that n] ad show "node_at fs1 (label_of img) = node_at fs (label_of img)"
      by (simp add: adds_dirs_same)
    from rr that have "node_at fs img \<noteq> None"
      by (auto simp: run_ready_def is_file_def split: option.splits)
    with ad show "node_at fs1 img = node_at fs img" by (rule adds_dirs_existing)
  qed
  \<comment> \<open>the train partition\<close>
  have "copy_ready fs1 t ?ti ?tl"
    using rr ad dirs1 st nm by (rule ready_after_dirs) simp
  from copy_loop_ok [OF this dt, of 0 "[]"] obtain fs2 where
    c2: "copy_pairs fs1 t ?ti ?tl =
           (fs2, Inr (length t, [name i. i \<leftarrow> t, \<not> path_exists fs1 (label_of i)]))"
    and n2: "\<forall>img \<in> set t. node_at fs2 (?ti @ [name img]) = node_at fs1 img"
    and w2: "writes_only (targets t ?ti ?tl) fs1 fs2"
    by (auto simp: copy_pairs_def)
  have "[name i. i \<leftarrow> t, \<not> path_exists fs1 (label_of i)] = mt"
    unfolding mt_def using st lab1 by (intro missing_cong) (auto simp: path_exists_def)
  with c2 have c2': "copy_pairs fs1 t ?ti ?tl = (fs2, Inr (length t, mt))" by simp
  \<comment> \<open>the validation partition\<close>
  have "copy_ready fs1 v ?vi ?vl"
    using rr ad dirs1 sv nm by (rule ready_after_dirs) simp
  moreover note w2
  moreover have "\<forall>img \<in> set v. img \<notin> targets t ?ti ?tl"
    using sv img_out out_t by blast
  ultimately have "copy_ready fs2 v ?vi ?vl" by (rule copy_ready_writes)
  from copy_loop_ok [OF this dv, of 0 "[]"] obtain fs3 where
    c3: "copy_pairs fs2 v ?vi ?vl =
           (fs3, Inr (length v, [name i. i \<leftarrow> v, \<not> path_exists fs2 (label_of i)]))"
    and n3: "\<forall>img \<in> set v. node_at fs3 (?vi @ [name img]) = node_at fs2 img"
    and w3: "writes_only (targets v ?vi ?vl) fs2 fs3"
    by (auto simp: copy_pairs_def)
  have same2: "node_at fs2 q = node_at fs1 q" if "\<not> prefix dest q" for q
    using w2 out_t [OF that] by (simp add: writes_only_def)
  have "[name i. i \<leftarrow> v, \<not> path_exists fs2 (label_of i)] = mv"
    unfolding mv_def using sv lab1 lab_out same2 by (intro missing_cong) (auto simp: path_exists_def)
  with c3 have c3': "copy_pairs fs2 v ?vi ?vl = (fs3, Inr (length v, mv))" by simp
  \<comment> \<open>the manifest\<close>
  have dir_eq: "is_dir fs3 q \<longleftrightarrow> is_dir fs1 q" for q
    using w2 w3 by (simp add: writes_only_def)
  have "node_at fs1 ?y = node_at fs ?y"
    using ad by (rule adds_dirs_same) (simp add: data_yaml_not_layout)
  with fresh have "\<not> is_dir fs1 ?y" by (simp add: is_dir_def)
  then have ny: "\<not> is_dir fs3 ?y" by (simp add: dir_eq)
  from dirs1 have "is_dir fs1 (dest @ [''images'', ''train''])" by (simp add: layout_def)
  then have "path_exists fs1 ((dest @ [''images'']) @ [''train''])"
    by (simp add: is_dir_def path_exists_def)
  with wf1 have "is_dir fs1 (parent ((dest @ [''images'']) @ [''train'']))"
    unfolding wf_fs_def by blast
  then have "is_dir fs1 (dest @ [''images''])" by (simp only: parent_snoc)
  then have "path_exists fs1 (dest @ [''images''])" by (simp add: is_dir_def path_exists_def)
  with wf1 have "is_dir fs1 (parent (dest @ [''images'']))" unfolding wf_fs_def by blast
  then have "is_dir fs1 dest" by (simp only: parent_snoc)
  then have dd: "is_dir fs3 dest" by (simp add: dir_eq)
  define fs4 where "fs4 = put fs3 ?y (File (data_yaml rt dest (length classes) classes))"
  from ny dd have wy: "write_data_yaml rt fs3 dest (length classes) classes = Inr fs4"
    by (auto simp: write_data_yaml_def write_text_def open_w_def is_dir_def fs4_def
        split: option.splits node.splits)
  \<comment> \<open>the run\<close>
  from ms have ls: "length s = length imgs" by (rule mset_eq_length)
  have run: "main rt a fs =
      (fs4,
       [Source src, Destination dest] @ (if cls = None then [WarningNoClasses] else []) @
       [Summary, TotalImages (length s), TrainCopied (length t) (length mt),
        ValCopied (length v) (length mv)] @
       (if mt \<noteq> [] \<or> mv \<noteq> [] then MissingHeader # map MissingItem (mt @ mv) else []) @
       [Wrote (dest @ [''data.yaml'']), Done],
       None)"
    using fi ne rc pd sp c2' c3' wy
    by (simp add: main_def Let_def src_def [symmetric] dest_def [symmetric] classes_def [symmetric])
  \<comment> \<open>the state it leaves\<close>
  have n4: "node_at fs4 q = node_at fs3 q" if "q \<noteq> ?y" for q
    using that by (simp add: fs4_def node_at_put)
  have p1: "\<forall>d \<in> set (layout dest). is_dir fs4 d"
  proof
    fix d assume d: "d \<in> set (layout dest)"
    with dirs1 have "is_dir fs3 d" by (simp add: dir_eq)
    moreover from d have "d \<noteq> ?y" by (auto simp: layout_def)
    ultimately show "is_dir fs4 d" by (simp add: is_dir_def n4)
  qed
  have p2: "node_at fs4 ?y = Some (File (data_yaml rt dest (length classes) classes))"
    by (simp add: fs4_def node_at_put)
  have p3: "\<forall>img \<in> set t. node_at fs4 (dest @ [''images'', ''train'', name img]) = node_at fs img"
  proof
    fix img assume i: "img \<in> set t"
    let ?q = "dest @ [''images'', ''train'', name img]"
    have "?q \<notin> targets v ?vi ?vl" by (auto simp: targets_def)
    with w3 have "node_at fs3 ?q = node_at fs2 ?q" by (simp add: writes_only_def)
    moreover from n2 i have "node_at fs2 ?q = node_at fs1 img" by simp
    moreover from i st have "node_at fs1 img = node_at fs img" by (auto intro: img1)
    moreover have "node_at fs4 ?q = node_at fs3 ?q" by (rule n4) simp
    ultimately show "node_at fs4 ?q = node_at fs img" by simp
  qed
  have p4: "\<forall>img \<in> set v. node_at fs4 (dest @ [''images'', ''val'', name img]) = node_at fs img"
  proof
    fix img assume i: "img \<in> set v"
    let ?q = "dest @ [''images'', ''val'', name img]"
    from i sv have i': "img \<in> set imgs" by blast
    from n3 i have "node_at fs3 ?q = node_at fs2 img" by simp
    moreover from same2 [OF img_out [OF i']] have "node_at fs2 img = node_at fs1 img" .
    moreover from i' have "node_at fs1 img = node_at fs img" by (rule img1)
    moreover have "node_at fs4 ?q = node_at fs3 ?q" by (rule n4) simp
    ultimately show "node_at fs4 ?q = node_at fs img" by simp
  qed
  have p5: "node_at fs4 q = node_at fs q \<or>
          (node_at fs q = None \<and> node_at fs4 q = Some Dir \<and> (\<exists>d \<in> set (layout dest). prefix q d))"
    if "q \<notin> targets t ?ti ?tl \<union> targets v ?vi ?vl \<union> {?y}" for q
  proof -
    from that have "node_at fs4 q = node_at fs3 q" by (simp add: n4)
    moreover from that w3 have "node_at fs3 q = node_at fs2 q" by (simp add: writes_only_def)
    moreover from that w2 have "node_at fs2 q = node_at fs1 q" by (simp add: writes_only_def)
    moreover from ad have "node_at fs1 q = node_at fs q \<or>
        (node_at fs q = None \<and> node_at fs1 q = Some Dir \<and> q \<in> ?D)"
      unfolding adds_dirs_def by (rule spec)
    ultimately show ?thesis by auto
  qed
  from run p1 p2 p3 p4 p5 show ?thesis by blast
qed

section \<open>Class names, and the run without them\<close>

lemma split_train_val_Finite:
  assumes "float_mul rt (length imgs) val = Finite p"
  shows "split_train_val rt g val imgs =
     Inr (shuffle rt g (sort imgs), drop (nat (max 1 \<lfloor>p\<rfloor>)) (shuffle rt g (sort imgs)),
          take (nat (max 1 \<lfloor>p\<rfloor>)) (shuffle rt g (sort imgs)))"
  using assms
  by (simp add: split_train_val_def Let_def length_shuffle slice_to_def slice_from_def max_one_truncate)

lemma read_classes_file:
  assumes "node_at fs (src @ [''classes.txt'']) = Some (File c)"
  shows "read_classes fs src = Inr (Some (map strip (spec_class_lines (universal_newlines c))))"
proof -
  have "[strip l. l \<leftarrow> ls, strip l \<noteq> []] = map strip [l \<leftarrow> ls. strip l \<noteq> []]" for ls :: "string list"
    by (induction ls) auto
  with assms show ?thesis
    by (simp add: read_classes_def Let_def path_exists_def read_text_def spec_class_lines_def)
qed

lemma read_classes_absent:
  assumes "\<not> path_exists fs (src @ [''classes.txt''])"
  shows "read_classes fs src = Inr None"
  using assms by (simp add: read_classes_def Let_def)

lemma data_yaml_no_classes:
  "data_yaml rt dest 0 [] =
     ''train: '' @ str_path (dest @ [''images'', ''train'']) @ [CHR 0x0A] @
     ''val: '' @ str_path (dest @ [''images'', ''val'']) @ [CHR 0x0A] @
     ''nc: 0'' @ [CHR 0x0A] @ ''names: []'' @ [CHR 0x0A]"
proof -
  have z: "str_nat 0 = ''0''" by code_simp
  show ?thesis unfolding data_yaml_def repr_list_def z by simp
qed

lemma wf_raw_fs: "wf_fs raw_fs"
  by (auto simp: wf_fs_def path_exists_def is_dir_def node_at_def raw_fs_def parent_def split: if_splits)

lemma run_ready_raw_fs:
  "run_ready raw_fs [''dataset''] [[''raw'', ''a.jpg''], [''raw'', ''b.jpg'']]"
proof -
  have "no_file_above raw_fs [''dataset'']"
    by (auto simp: no_file_above_def node_at_def raw_fs_def prefix_Cons split: list.splits)
  moreover have "\<forall>p. prefix [''dataset''] p \<longrightarrow> node_at raw_fs p = None"
    by (auto simp: node_at_def raw_fs_def prefix_Cons)
  moreover have "is_file raw_fs [''raw'', ''a.jpg'']" "is_file raw_fs [''raw'', ''b.jpg'']"
    "\<not> is_dir raw_fs (label_of [''raw'', ''a.jpg''])" "\<not> is_dir raw_fs (label_of [''raw'', ''b.jpg''])"
    "\<not> prefix (label_of [''raw'', ''a.jpg'']) [''dataset'']"
    "\<not> prefix (label_of [''raw'', ''b.jpg'']) [''dataset'']"
    by code_simp+
  ultimately show ?thesis using wf_raw_fs by (simp add: run_ready_def)
qed

lemma run_ready_one_image_fs: "run_ready one_image_fs [''dataset''] [[''raw'', ''a.jpg'']]"
proof -
  have "wf_fs one_image_fs"
    by (auto simp: wf_fs_def path_exists_def is_dir_def node_at_def one_image_fs_def parent_def
        split: if_splits)
  moreover have "no_file_above one_image_fs [''dataset'']"
    by (auto simp: no_file_above_def node_at_def one_image_fs_def prefix_Cons split: list.splits)
  moreover have "\<forall>p. prefix [''dataset''] p \<longrightarrow> node_at one_image_fs p = None"
    by (auto simp: node_at_def one_image_fs_def prefix_Cons)
  moreover have "is_file one_image_fs [''raw'', ''a.jpg'']"
    "\<not> is_dir one_image_fs (label_of [''raw'', ''a.jpg''])"
    "\<not> prefix (label_of [''raw'', ''a.jpg'']) [''dataset'']"
    by code_simp+
  ultimately show ?thesis by (simp add: run_ready_def)
qed

text \<open>
  C5, as the code has it. \<open>read_classes\<close> returns the lines of \<open>classes.txt\<close>, blank lines
  skipped, each line stripped of the white space at its ends, when the file exists, and
  \<open>None\<close> when nothing exists at that path. When it is absent, the source has at least
  one image, the fraction is finite and the destination is new, the run ends normally:
  it prints the warning, writes \<open>nc: 0\<close> and \<open>names: []\<close> into \<open>data.yaml\<close>, makes the four
  directories and copies every image into \<open>images/train\<close> or \<open>images/val\<close>.
\<close>

theorem read_classes_and_absent_classes_run:
  fixes a :: args
  shows
   "(node_at fs (src @ [''classes.txt'']) = Some (File c) \<longrightarrow>
       read_classes fs src = Inr (Some (map strip (spec_class_lines (universal_newlines c))))) \<and>
    (\<not> path_exists fs (src @ [''classes.txt'']) \<longrightarrow> read_classes fs src = Inr None) \<and>
    (\<not> path_exists fs (arg_src a @ [''classes.txt'']) \<and> find_images fs (arg_src a) = Inr imgs \<and>
     imgs \<noteq> [] \<and> float_mul rt (length imgs) (arg_val a) = Finite p \<and>
     run_ready fs (arg_dest a) imgs \<longrightarrow>
       (\<exists>fs' out. main rt a fs = (fs', out, None) \<and> WarningNoClasses \<in> set out \<and>
          node_at fs' (arg_dest a @ [''data.yaml'']) = Some (File (data_yaml rt (arg_dest a) 0 [])) \<and>
          data_yaml rt (arg_dest a) 0 [] =
            ''train: '' @ str_path (arg_dest a @ [''images'', ''train'']) @ [CHR 0x0A] @
            ''val: '' @ str_path (arg_dest a @ [''images'', ''val'']) @ [CHR 0x0A] @
            ''nc: 0'' @ [CHR 0x0A] @ ''names: []'' @ [CHR 0x0A] \<and>
          (\<forall>d \<in> set (layout (arg_dest a)). is_dir fs' d) \<and>
          (\<forall>img \<in> set imgs.
             node_at fs' (arg_dest a @ [''images'', ''train'', name img]) = node_at fs img \<or>
             node_at fs' (arg_dest a @ [''images'', ''val'', name img]) = node_at fs img)))"
proof (intro conjI impI)
  assume "node_at fs (src @ [''classes.txt'']) = Some (File c)"
  then show "read_classes fs src = Inr (Some (map strip (spec_class_lines (universal_newlines c))))"
    by (rule read_classes_file)
next
  assume "\<not> path_exists fs (src @ [''classes.txt''])"
  then show "read_classes fs src = Inr None" by (rule read_classes_absent)
next
  assume h: "\<not> path_exists fs (arg_src a @ [''classes.txt'']) \<and> find_images fs (arg_src a) = Inr imgs \<and>
     imgs \<noteq> [] \<and> float_mul rt (length imgs) (arg_val a) = Finite p \<and> run_ready fs (arg_dest a) imgs"
  then have rc: "read_classes fs (arg_src a) = Inr None" by (simp add: read_classes_absent)
  from h have fi: "find_images fs (arg_src a) = Inr imgs" and ne: "imgs \<noteq> []"
    and rr: "run_ready fs (arg_dest a) imgs" by simp_all
  from h obtain s t v where
    sp: "split_train_val rt (rng_seed rt (arg_seed a)) (arg_val a) imgs = Inr (s, t, v)"
    by (auto simp: split_train_val_Finite)
  from split_train_val_parts [OF sp] obtain k where ms: "mset s = mset imgs"
    and v: "v = take k s" and t: "t = drop k s"
    by blast
  from main_completes [OF fi ne rc sp rr] obtain fs' out where
    m: "main rt a fs = (fs', out, None)" and w: "WarningNoClasses \<in> set out"
    and y: "node_at fs' (arg_dest a @ [''data.yaml'']) = Some (File (data_yaml rt (arg_dest a) 0 []))"
    and d: "\<forall>d \<in> set (layout (arg_dest a)). is_dir fs' d"
    and ct: "\<forall>img \<in> set t. node_at fs' (arg_dest a @ [''images'', ''train'', name img]) = node_at fs img"
    and cv: "\<forall>img \<in> set v. node_at fs' (arg_dest a @ [''images'', ''val'', name img]) = node_at fs img"
    by auto
  have "set imgs = set t \<union> set v"
  proof -
    from ms have "set imgs = set s" by (metis mset_eq_setD)
    also have "s = take k s @ drop k s" by simp
    finally show ?thesis unfolding v t by (metis set_append Un_commute)
  qed
  with ct cv have "\<forall>img \<in> set imgs.
      node_at fs' (arg_dest a @ [''images'', ''train'', name img]) = node_at fs img \<or>
      node_at fs' (arg_dest a @ [''images'', ''val'', name img]) = node_at fs img"
    by blast
  with m w y d data_yaml_no_classes [of rt "arg_dest a"]
  show "\<exists>fs' out. main rt a fs = (fs', out, None) \<and> WarningNoClasses \<in> set out \<and>
          node_at fs' (arg_dest a @ [''data.yaml'']) = Some (File (data_yaml rt (arg_dest a) 0 [])) \<and>
          data_yaml rt (arg_dest a) 0 [] =
            ''train: '' @ str_path (arg_dest a @ [''images'', ''train'']) @ [CHR 0x0A] @
            ''val: '' @ str_path (arg_dest a @ [''images'', ''val'']) @ [CHR 0x0A] @
            ''nc: 0'' @ [CHR 0x0A] @ ''names: []'' @ [CHR 0x0A] \<and>
          (\<forall>d \<in> set (layout (arg_dest a)). is_dir fs' d) \<and>
          (\<forall>img \<in> set imgs.
             node_at fs' (arg_dest a @ [''images'', ''train'', name img]) = node_at fs img \<or>
             node_at fs' (arg_dest a @ [''images'', ''val'', name img]) = node_at fs img)"
    by blast
qed

theorem read_classes_and_absent_classes_run_witness:
  "node_at classes_fs ([''raw''] @ [''classes.txt'']) = Some (File classes_text) \<and>
   read_classes classes_fs [''raw''] =
     Inr (Some (map strip (spec_class_lines (universal_newlines classes_text)))) \<and>
   map strip (spec_class_lines (universal_newlines classes_text)) = [''girl'', ''boy''] \<and>
   \<not> path_exists raw_fs ([''raw''] @ [''classes.txt'']) \<and>
   read_classes raw_fs [''raw''] = Inr None \<and>
   find_images raw_fs (arg_src new_dest_args) = Inr [[''raw'', ''a.jpg''], [''raw'', ''b.jpg'']] \<and>
   float_mul demo_runtime (length [[''raw'', ''a.jpg''], [''raw'', ''b.jpg'']]) (arg_val new_dest_args) =
     Finite (2 / 5) \<and>
   run_ready raw_fs (arg_dest new_dest_args) [[''raw'', ''a.jpg''], [''raw'', ''b.jpg'']] \<and>
   snd (snd (main demo_runtime new_dest_args raw_fs)) = None \<and>
   WarningNoClasses \<in> set (fst (snd (main demo_runtime new_dest_args raw_fs))) \<and>
   node_at (fst (main demo_runtime new_dest_args raw_fs)) (arg_dest new_dest_args @ [''data.yaml'']) =
     Some (File (data_yaml demo_runtime (arg_dest new_dest_args) 0 [])) \<and>
   is_dir (fst (main demo_runtime new_dest_args raw_fs)) [''dataset'', ''images'', ''train'']"
proof -
  let ?imgs = "[[''raw'', ''a.jpg''], [''raw'', ''b.jpg'']]"
  have c1: "node_at classes_fs ([''raw''] @ [''classes.txt'']) = Some (File classes_text)"
    by code_simp
  have v1: "map strip (spec_class_lines (universal_newlines classes_text)) = [''girl'', ''boy'']"
    by code_simp
  have a1: "\<not> path_exists raw_fs ([''raw''] @ [''classes.txt''])"
    by code_simp
  have a2: "\<not> path_exists raw_fs (arg_src new_dest_args @ [''classes.txt''])"
    by code_simp
  have fi: "find_images raw_fs (arg_src new_dest_args) = Inr ?imgs"
    by code_simp
  have ne: "?imgs \<noteq> []" by simp
  have fl: "float_mul demo_runtime (length ?imgs) (arg_val new_dest_args) = Finite (2 / 5)"
    by (simp add: demo_runtime_def new_dest_args_def)
  have rr: "run_ready raw_fs (arg_dest new_dest_args) ?imgs"
    using run_ready_raw_fs by (simp add: new_dest_args_def)
  have l: "[''dataset'', ''images'', ''train''] \<in> set (layout (arg_dest new_dest_args))"
    by (simp add: layout_def new_dest_args_def)
  note t1 = read_classes_and_absent_classes_run
    [of classes_fs "[''raw'']" classes_text new_dest_args ?imgs demo_runtime "2 / 5"]
  note t2 = read_classes_and_absent_classes_run
    [of raw_fs "[''raw'']" classes_text new_dest_args ?imgs demo_runtime "2 / 5"]
  from t1 c1 have r1: "read_classes classes_fs [''raw''] =
     Inr (Some (map strip (spec_class_lines (universal_newlines classes_text))))"
    by blast
  from t2 a1 have r2: "read_classes raw_fs [''raw''] = Inr None"
    by blast
  from t2 a2 fi ne fl rr obtain fs' out where
    m: "main demo_runtime new_dest_args raw_fs = (fs', out, None)"
    and w: "WarningNoClasses \<in> set out"
    and y: "node_at fs' (arg_dest new_dest_args @ [''data.yaml'']) =
       Some (File (data_yaml demo_runtime (arg_dest new_dest_args) 0 []))"
    and d: "\<forall>d \<in> set (layout (arg_dest new_dest_args)). is_dir fs' d"
    by blast
  from d l have "is_dir fs' [''dataset'', ''images'', ''train'']" by blast
  with c1 r1 v1 a1 r2 fi fl rr m w y show ?thesis by simp
qed

text \<open>
  C5 as stated fails on a line with white space at its ends: \<open>read_classes\<close> returns the
  stripped name \<open>girl\<close>, not the line.
\<close>

theorem read_classes_strips_counterexample:
  "node_at classes_fs [''raw'', ''classes.txt''] = Some (File classes_text) \<and>
   read_classes classes_fs [''raw''] = Inr (Some [''girl'', ''boy'']) \<and>
   spec_class_lines (universal_newlines classes_text) = ['' girl'', ''boy''] \<and>
   read_classes classes_fs [''raw''] \<noteq> Inr (Some (spec_class_lines (universal_newlines classes_text)))"
  by code_simp

text \<open>
  When the validation count reaches the number of images, a run into a new destination
  copies no training image and leaves \<open>images/train\<close> without entry.
\<close>

lemma empty_train_run:
  fixes a :: args
  assumes fi: "find_images fs (arg_src a) = Inr imgs" and ne: "imgs \<noteq> []"
    and rc: "read_classes fs (arg_src a) = Inr cls"
    and fl: "float_mul rt (length imgs) (arg_val a) = Finite p"
    and all: "int (length imgs) \<le> max 1 \<lfloor>p\<rfloor>"
    and rr: "run_ready fs (arg_dest a) imgs"
  shows "\<exists>s fs' out k.
     split_train_val rt (rng_seed rt (arg_seed a)) (arg_val a) imgs = Inr (s, [], s) \<and>
     mset s = mset imgs \<and>
     main rt a fs = (fs', out, None) \<and>
     TrainCopied 0 0 \<in> set out \<and> ValCopied (length imgs) k \<in> set out \<and>
     node_at fs' (arg_dest a @ [''data.yaml'']) =
       Some (File (data_yaml rt (arg_dest a) (length (case cls of None \<Rightarrow> [] | Some cs \<Rightarrow> cs))
          (case cls of None \<Rightarrow> [] | Some cs \<Rightarrow> cs))) \<and>
     is_dir fs' (arg_dest a @ [''images'', ''train'']) \<and>
     (\<forall>x. node_at fs' (arg_dest a @ [''images'', ''train'', x]) = None) \<and>
     (\<forall>img \<in> set imgs. node_at fs' (arg_dest a @ [''images'', ''val'', name img]) = node_at fs img)"
proof -
  let ?dest = "arg_dest a"
  define s where "s = shuffle rt (rng_seed rt (arg_seed a)) (sort imgs)"
  have ls: "length s = length imgs" by (simp add: s_def length_shuffle)
  with all have "length s \<le> nat (max 1 \<lfloor>p\<rfloor>)" by simp
  then have "drop (nat (max 1 \<lfloor>p\<rfloor>)) s = []" "take (nat (max 1 \<lfloor>p\<rfloor>)) s = s" by simp_all
  with split_train_val_Finite [OF fl, of "rng_seed rt (arg_seed a)"]
  have sp: "split_train_val rt (rng_seed rt (arg_seed a)) (arg_val a) imgs = Inr (s, [], s)"
    by (simp add: s_def)
  have ms: "mset s = mset imgs" by (simp add: s_def mset_shuffle)
  then have ss: "set s = set imgs" by (rule mset_eq_setD)
  from main_completes [OF fi ne rc sp rr] obtain fs' where
    m: "main rt a fs =
      (fs',
       [Source (arg_src a), Destination ?dest] @ (if cls = None then [WarningNoClasses] else []) @
       [Summary, TotalImages (length s), TrainCopied (length ([]::path list)) (length ([]::string list)),
        ValCopied (length s) (length [name i. i \<leftarrow> s, \<not> path_exists fs (label_of i)])] @
       (if [name i. i \<leftarrow> s, \<not> path_exists fs (label_of i)] \<noteq> []
        then MissingHeader # map MissingItem [name i. i \<leftarrow> s, \<not> path_exists fs (label_of i)] else []) @
       [Wrote (?dest @ [''data.yaml'']), Done],
       None)"
    and d: "\<forall>d \<in> set (layout ?dest). is_dir fs' d"
    and y: "node_at fs' (?dest @ [''data.yaml'']) =
       Some (File (data_yaml rt ?dest (length (case cls of None \<Rightarrow> [] | Some cs \<Rightarrow> cs))
          (case cls of None \<Rightarrow> [] | Some cs \<Rightarrow> cs)))"
    and cv: "\<forall>img \<in> set s. node_at fs' (?dest @ [''images'', ''val'', name img]) = node_at fs img"
    and fr: "\<forall>q. q \<notin> targets [] (?dest @ [''images'', ''train'']) (?dest @ [''labels'', ''train'']) \<union>
             targets s (?dest @ [''images'', ''val'']) (?dest @ [''labels'', ''val'']) \<union>
             {?dest @ [''data.yaml'']} \<longrightarrow>
          node_at fs' q = node_at fs q \<or>
          (node_at fs q = None \<and> node_at fs' q = Some Dir \<and> (\<exists>d \<in> set (layout ?dest). prefix q d))"
    by auto
  have e: "node_at fs' (?dest @ [''images'', ''train'', x]) = None" for x
  proof -
    let ?q = "?dest @ [''images'', ''train'', x]"
    have "?q \<notin> targets [] (?dest @ [''images'', ''train'']) (?dest @ [''labels'', ''train'']) \<union>
             targets s (?dest @ [''images'', ''val'']) (?dest @ [''labels'', ''val'']) \<union>
             {?dest @ [''data.yaml'']}"
      by (auto simp: targets_def)
    with fr have "node_at fs' ?q = node_at fs ?q \<or>
          (node_at fs ?q = None \<and> node_at fs' ?q = Some Dir \<and> (\<exists>d \<in> set (layout ?dest). prefix ?q d))"
      by blast
    moreover from rr have "node_at fs ?q = None" by (simp add: run_ready_def)
    ultimately show ?thesis using deep_not_layout [of ?dest "''images''" "''train''" x] by auto
  qed
  from d have dt: "is_dir fs' (?dest @ [''images'', ''train''])" by (simp add: layout_def)
  from m have o1: "TrainCopied 0 0 \<in> set (fst (snd (main rt a fs)))"
    and o2: "ValCopied (length imgs) (length [name i. i \<leftarrow> s, \<not> path_exists fs (label_of i)])
       \<in> set (fst (snd (main rt a fs)))"
    by (simp_all add: ls)
  from m obtain out where m': "main rt a fs = (fs', out, None)" by blast
  with o1 o2 have "TrainCopied 0 0 \<in> set out"
    "ValCopied (length imgs) (length [name i. i \<leftarrow> s, \<not> path_exists fs (label_of i)]) \<in> set out"
    by simp_all
  with sp ms m' y dt e cv ss show ?thesis by blast
qed

text \<open>
  C10, as the code has it. When the validation count \<open>max(1, floor(p))\<close> reaches the
  number of images, \<open>p\<close> being the floating-point product \<open>n * valFraction\<close> (always so
  for a single image), the validation set receives all the images and the train set is
  empty, whatever the destination. When moreover the images are regular files and the
  destination does not exist yet (\<open>run_ready\<close>), the run ends normally: no training
  image is copied, all the images are in \<open>images/val\<close>, the manifest is written, and
  \<open>images/train\<close> is a directory with no entry.
\<close>

theorem all_images_in_validation:
  fixes a :: args
  assumes fl: "float_mul rt (length imgs) (arg_val a) = Finite p"
    and all: "int (length imgs) \<le> max 1 \<lfloor>p\<rfloor>"
  shows "\<exists>s.
     split_train_val rt (rng_seed rt (arg_seed a)) (arg_val a) imgs = Inr (s, [], s) \<and>
     mset s = mset imgs \<and>
     (find_images fs (arg_src a) = Inr imgs \<and> imgs \<noteq> [] \<and>
      read_classes fs (arg_src a) = Inr cls \<and> run_ready fs (arg_dest a) imgs \<longrightarrow>
        (\<exists>fs' out k.
           main rt a fs = (fs', out, None) \<and>
           TrainCopied 0 0 \<in> set out \<and> ValCopied (length imgs) k \<in> set out \<and>
           node_at fs' (arg_dest a @ [''data.yaml'']) =
             Some (File (data_yaml rt (arg_dest a) (length (case cls of None \<Rightarrow> [] | Some cs \<Rightarrow> cs))
                (case cls of None \<Rightarrow> [] | Some cs \<Rightarrow> cs))) \<and>
           is_dir fs' (arg_dest a @ [''images'', ''train'']) \<and>
           (\<forall>x. node_at fs' (arg_dest a @ [''images'', ''train'', x]) = None) \<and>
           (\<forall>img \<in> set imgs.
              node_at fs' (arg_dest a @ [''images'', ''val'', name img]) = node_at fs img)))"
proof -
  define s where "s = shuffle rt (rng_seed rt (arg_seed a)) (sort imgs)"
  have "length s = length imgs" by (simp add: s_def length_shuffle)
  with all have "length s \<le> nat (max 1 \<lfloor>p\<rfloor>)" by simp
  then have "drop (nat (max 1 \<lfloor>p\<rfloor>)) s = []" "take (nat (max 1 \<lfloor>p\<rfloor>)) s = s" by simp_all
  with split_train_val_Finite [OF fl, of "rng_seed rt (arg_seed a)"]
  have sp: "split_train_val rt (rng_seed rt (arg_seed a)) (arg_val a) imgs = Inr (s, [], s)"
    by (simp add: s_def)
  have ms: "mset s = mset imgs" by (simp add: s_def mset_shuffle)
  have run: "\<exists>fs' out k.
           main rt a fs = (fs', out, None) \<and>
           TrainCopied 0 0 \<in> set out \<and> ValCopied (length imgs) k \<in> set out \<and>
           node_at fs' (arg_dest a @ [''data.yaml'']) =
             Some (File (data_yaml rt (arg_dest a) (length (case cls of None \<Rightarrow> [] | Some cs \<Rightarrow> cs))
                (case cls of None \<Rightarrow> [] | Some cs \<Rightarrow> cs))) \<and>
           is_dir fs' (arg_dest a @ [''images'', ''train'']) \<and>
           (\<forall>x. node_at fs' (arg_dest a @ [''images'', ''train'', x]) = None) \<and>
           (\<forall>img \<in> set imgs.
              node_at fs' (arg_dest a @ [''images'', ''val'', name img]) = node_at fs img)"
    if h: "find_images fs (arg_src a) = Inr imgs \<and> imgs \<noteq> [] \<and>
      read_classes fs (arg_src a) = Inr cls \<and> run_ready fs (arg_dest a) imgs"
  proof -
    from h have fi: "find_images fs (arg_src a) = Inr imgs" and ne: "imgs \<noteq> []"
      and rc: "read_classes fs (arg_src a) = Inr cls" and rr: "run_ready fs (arg_dest a) imgs"
      by simp_all
    from empty_train_run [OF fi ne rc fl all rr] show ?thesis by blast
  qed
  from sp ms run show ?thesis by blast
qed

theorem all_images_in_validation_witness:
  "float_mul demo_runtime (length [[''raw'', ''a.jpg'']]) (arg_val new_dest_args) = Finite (1 / 5) \<and>
   int (length [[''raw'', ''a.jpg'']]) \<le> max 1 \<lfloor>1 / 5 :: real\<rfloor> \<and>
   split_train_val demo_runtime (rng_seed demo_runtime (arg_seed new_dest_args)) (arg_val new_dest_args)
     [[''raw'', ''a.jpg'']] = Inr ([[''raw'', ''a.jpg'']], [], [[''raw'', ''a.jpg'']]) \<and>
   find_images one_image_fs (arg_src new_dest_args) = Inr [[''raw'', ''a.jpg'']] \<and>
   read_classes one_image_fs (arg_src new_dest_args) = Inr None \<and>
   run_ready one_image_fs (arg_dest new_dest_args) [[''raw'', ''a.jpg'']] \<and>
   snd (snd (main demo_runtime new_dest_args one_image_fs)) = None \<and>
   TrainCopied 0 0 \<in> set (fst (snd (main demo_runtime new_dest_args one_image_fs))) \<and>
   is_dir (fst (main demo_runtime new_dest_args one_image_fs)) [''dataset'', ''images'', ''train''] \<and>
   node_at (fst (main demo_runtime new_dest_args one_image_fs))
     [''dataset'', ''images'', ''train'', ''a.jpg''] = None \<and>
   node_at (fst (main demo_runtime new_dest_args one_image_fs))
     [''dataset'', ''images'', ''val'', ''a.jpg''] = Some (File ''picture a'')"
proof -
  let ?imgs = "[[''raw'', ''a.jpg'']]"
  have fi: "find_images one_image_fs (arg_src new_dest_args) = Inr ?imgs" by code_simp
  have ne: "?imgs \<noteq> []" by simp
  have rc: "read_classes one_image_fs (arg_src new_dest_args) = Inr None" by code_simp
  have fl: "float_mul demo_runtime (length ?imgs) (arg_val new_dest_args) = Finite (1 / 5)"
    by (simp add: demo_runtime_def new_dest_args_def)
  have le: "int (length ?imgs) \<le> max 1 \<lfloor>1 / 5 :: real\<rfloor>" by simp
  have rr: "run_ready one_image_fs (arg_dest new_dest_args) ?imgs"
    using run_ready_one_image_fs by (simp add: new_dest_args_def)
  have d: "arg_dest new_dest_args = [''dataset'']" by (simp add: new_dest_args_def)
  have n: "name [''raw'', ''a.jpg''] = ''a.jpg''" by (simp add: name_def)
  have c: "node_at one_image_fs [''raw'', ''a.jpg''] = Some (File ''picture a'')" by code_simp
  have sp': "split_train_val demo_runtime (rng_seed demo_runtime (arg_seed new_dest_args))
       (arg_val new_dest_args) ?imgs = Inr (?imgs, [], ?imgs)"
    by (simp add: split_train_val_def demo_runtime_def new_dest_args_def shuffle_def
        slice_to_def slice_from_def Let_def)
  from all_images_in_validation [OF fl le, of one_image_fs None] fi ne rc rr
  obtain fs' out k where
    m: "main demo_runtime new_dest_args one_image_fs = (fs', out, None)"
    and t: "TrainCopied 0 0 \<in> set out"
    and dt: "is_dir fs' (arg_dest new_dest_args @ [''images'', ''train''])"
    and e: "\<forall>x. node_at fs' (arg_dest new_dest_args @ [''images'', ''train'', x]) = None"
    and cv: "\<forall>img \<in> set ?imgs.
       node_at fs' (arg_dest new_dest_args @ [''images'', ''val'', name img]) = node_at one_image_fs img"
    by blast
  from e have e': "node_at fs' [''dataset'', ''images'', ''train'', ''a.jpg''] = None"
    unfolding d by simp
  from cv n c have cv': "node_at fs' [''dataset'', ''images'', ''val'', ''a.jpg''] = Some (File ''picture a'')"
    unfolding d by simp
  from dt have dt': "is_dir fs' [''dataset'', ''images'', ''train'']" unfolding d by simp
  from fi rc fl le rr sp' m t dt' e' cv' show ?thesis by simp
qed

text \<open>
  C10 as stated fails on a destination that exists already: the directories are made
  with \<open>exist_ok=True\<close> and nothing is removed, so with a single image the run ends
  normally and copies no training image, but \<open>images/train\<close> still holds the picture an
  earlier run left there.
\<close>

theorem stale_train_directory_counterexample:
  "find_images stale_fs (arg_src new_dest_args) = Inr [[''raw'', ''a.jpg'']] \<and>
   split_train_val demo_runtime (rng_seed demo_runtime (arg_seed new_dest_args)) (arg_val new_dest_args)
     [[''raw'', ''a.jpg'']] = Inr ([[''raw'', ''a.jpg'']], [], [[''raw'', ''a.jpg'']]) \<and>
   snd (snd (main demo_runtime new_dest_args stale_fs)) = None \<and>
   TrainCopied 0 0 \<in> set (fst (snd (main demo_runtime new_dest_args stale_fs))) \<and>
   node_at (fst (main demo_runtime new_dest_args stale_fs))
     [''dataset'', ''images'', ''train'', ''old.jpg''] = Some (File ''old picture'') \<and>
   iterdir (fst (main demo_runtime new_dest_args stale_fs)) [''dataset'', ''images'', ''train''] =
     Inr [[''dataset'', ''images'', ''train'', ''old.jpg'']]"
  by code_simp

section \<open>The copy operation\<close>

lemma count_missing_names:
  assumes "distinct (map name ps)" and "img \<in> set ps" and "\<not> P img"
  shows "count_list [name i. i \<leftarrow> ps, \<not> P i] (name img) = 1"
  using assms
proof (induction ps)
  case Nil
  then show ?case by simp
next
  case (Cons q ps)
  show ?case
  proof (cases "q = img")
    case True
    from Cons.prems(1) True have "name img \<notin> name ` set ps" by simp
    then have "name img \<notin> set [name i. i \<leftarrow> ps, \<not> P i]" by auto
    then have "count_list [name i. i \<leftarrow> ps, \<not> P i] (name img) = 0" by (simp add: count_list_0_iff)
    with True Cons.prems(3) show ?thesis by simp
  next
    case False
    with Cons.prems have "img \<in> set ps" "distinct (map name ps)" "name q \<noteq> name img" by auto
    with Cons.IH Cons.prems(3) show ?thesis by simp
  qed
qed

text \<open>
  C9. When \<open>copy_pairs\<close> returns, the count is the length of the input list, every image
  of the list is present in the destination images directory, and the missing-labels
  list is a subsequence of the names of the input images: only their names, in their
  order. And it does return, with that count and the copy of every image in the
  destination images directory, when the images are regular files with distinct names
  outside the two destination directories (\<open>copy_ready\<close>), whether they have labels or
  not.
\<close>

theorem copy_pairs_count_and_order:
  "(copy_pairs fs pairs images_dst labels_dst = (fs', Inr (copied, missing_labels)) \<longrightarrow>
      copied = length pairs \<and> subseq missing_labels (map name pairs) \<and>
      (\<forall>img \<in> set pairs. path_exists fs' (images_dst @ [name img]))) \<and>
   (copy_ready fs pairs images_dst labels_dst \<and> distinct (map name pairs) \<longrightarrow>
      (\<exists>fs'' m. copy_pairs fs pairs images_dst labels_dst = (fs'', Inr (length pairs, m)) \<and>
         (\<forall>img \<in> set pairs. node_at fs'' (images_dst @ [name img]) = node_at fs img)))"
proof (intro conjI impI)
  assume "copy_pairs fs pairs images_dst labels_dst = (fs', Inr (copied, missing_labels))"
  then have l: "copy_loop images_dst labels_dst fs 0 [] pairs = (fs', Inr (copied, missing_labels))"
    by (simp add: copy_pairs_def)
  from copy_loop_Inr [OF l] show "copied = length pairs" and "subseq missing_labels (map name pairs)"
    by auto
  from copy_loop_all_exist [OF l]
  show "\<forall>img \<in> set pairs. path_exists fs' (images_dst @ [name img])" by blast
next
  assume "copy_ready fs pairs images_dst labels_dst \<and> distinct (map name pairs)"
  then have r: "copy_ready fs pairs images_dst labels_dst" and d: "distinct (map name pairs)"
    by simp_all
  from copy_loop_ok [OF r d, of 0 "[]"]
  show "\<exists>fs'' m. copy_pairs fs pairs images_dst labels_dst = (fs'', Inr (length pairs, m)) \<and>
         (\<forall>img \<in> set pairs. node_at fs'' (images_dst @ [name img]) = node_at fs img)"
    by (auto simp: copy_pairs_def)
qed

theorem copy_pairs_count_and_order_witness:
  "copy_pairs raw_fs [[''raw'', ''a.jpg''], [''raw'', ''b.jpg'']] [''out'', ''images''] [''out'', ''labels''] =
     (raw_fs_copied, Inr (2, [''b.jpg''])) \<and>
   2 = length [[''raw'', ''a.jpg''], [''raw'', ''b.jpg'']] \<and>
   subseq [''b.jpg''] (map name [[''raw'', ''a.jpg''], [''raw'', ''b.jpg'']]) \<and>
   path_exists raw_fs_copied ([''out'', ''images''] @ [name [''raw'', ''a.jpg'']]) \<and>
   path_exists raw_fs_copied ([''out'', ''images''] @ [name [''raw'', ''b.jpg'']]) \<and>
   copy_ready raw_fs [[''raw'', ''a.jpg''], [''raw'', ''b.jpg'']] [''out'', ''images''] [''out'', ''labels''] \<and>
   distinct (map name [[''raw'', ''a.jpg''], [''raw'', ''b.jpg'']]) \<and>
   node_at raw_fs_copied ([''out'', ''images''] @ [name [''raw'', ''a.jpg'']]) = node_at raw_fs [''raw'', ''a.jpg''] \<and>
   node_at raw_fs_copied ([''out'', ''images''] @ [name [''raw'', ''b.jpg'']]) = node_at raw_fs [''raw'', ''b.jpg'']"
proof -
  let ?ps = "[[''raw'', ''a.jpg''], [''raw'', ''b.jpg'']]"
  have r: "copy_pairs raw_fs ?ps [''out'', ''images''] [''out'', ''labels''] =
      (raw_fs_copied, Inr (2, [''b.jpg'']))"
    by code_simp
  have c: "copy_ready raw_fs ?ps [''out'', ''images''] [''out'', ''labels'']" by code_simp
  have d: "distinct (map name ?ps)" by code_simp
  note t = copy_pairs_count_and_order [of raw_fs ?ps "[''out'', ''images'']" "[''out'', ''labels'']"
      raw_fs_copied 2 "[''b.jpg'']"]
  from t r have "2 = length ?ps" and "subseq [''b.jpg''] (map name ?ps)"
    and e: "\<forall>img \<in> set ?ps. path_exists raw_fs_copied ([''out'', ''images''] @ [name img])"
    by blast+
  moreover from t c d obtain fs'' m where
    "copy_pairs raw_fs ?ps [''out'', ''images''] [''out'', ''labels''] = (fs'', Inr (length ?ps, m))"
    and n: "\<forall>img \<in> set ?ps. node_at fs'' ([''out'', ''images''] @ [name img]) = node_at raw_fs img"
    by blast
  with r have "fs'' = raw_fs_copied" by simp
  with n have "\<forall>img \<in> set ?ps. node_at raw_fs_copied ([''out'', ''images''] @ [name img]) = node_at raw_fs img"
    by simp
  ultimately show ?thesis using r c d by (simp del: subseq_Cons2_iff)
qed

text \<open>
  C3, as the code has it. The name of an unlabelled image is appended once each time the
  image is met, so it is recorded exactly once when no other entry of the input list
  has its name. First part: in the loop body, once the image's own copy has succeeded
  and the label is absent (the test \<open>txt.exists()\<close> of the code), the body ends
  normally, with the count incremented and the name appended. Second part: when
  \<open>copy_pairs\<close> returns on a list with distinct names, an image of the list whose label
  does not exist (files are never removed, so it did not exist at any time of the run)
  is present in the destination images directory and its name occurs exactly once in
  the missing-labels list. Third part: on a list of regular files with distinct names
  outside the two destination directories, \<open>copy_pairs\<close> does return, whatever labels
  are missing; an image whose label does not exist has its copy in the destination
  images directory and its name exactly once in the missing-labels list.
\<close>

theorem copy_pairs_missing_label:
  assumes "with_suffix img ''.txt'' = Inr txt"
  shows "(copy2 fs0 img (images_dst @ [name img]) = Inr fs1 \<and> \<not> path_exists fs1 txt \<longrightarrow>
            copy_pair images_dst labels_dst fs0 c m img = (fs1, Inr (c + 1, m @ [name img]))) \<and>
         (copy_pairs fs pairs images_dst labels_dst = (fs', Inr (copied, missing_labels)) \<and>
          img \<in> set pairs \<and> distinct (map name pairs) \<and> \<not> path_exists fs' txt \<longrightarrow>
            path_exists fs' (images_dst @ [name img]) \<and> count_list missing_labels (name img) = 1) \<and>
         (copy_ready fs pairs images_dst labels_dst \<and> img \<in> set pairs \<and> distinct (map name pairs) \<and>
          \<not> path_exists fs txt \<longrightarrow>
            (\<exists>fs'' ms. copy_pairs fs pairs images_dst labels_dst = (fs'', Inr (length pairs, ms)) \<and>
               node_at fs'' (images_dst @ [name img]) = node_at fs img \<and>
               count_list ms (name img) = 1))"
proof (intro conjI impI)
  assume "copy2 fs0 img (images_dst @ [name img]) = Inr fs1 \<and> \<not> path_exists fs1 txt"
  with assms show "copy_pair images_dst labels_dst fs0 c m img = (fs1, Inr (c + 1, m @ [name img]))"
    by (simp add: copy_pair_def Let_def)
next
  assume a: "copy_pairs fs pairs images_dst labels_dst = (fs', Inr (copied, missing_labels)) \<and>
    img \<in> set pairs \<and> distinct (map name pairs) \<and> \<not> path_exists fs' txt"
  then have l: "copy_loop images_dst labels_dst fs 0 [] pairs = (fs', Inr (copied, missing_labels))"
    by (simp add: copy_pairs_def)
  from a have "img \<in> set pairs" "distinct (map name pairs)" "\<not> path_exists fs' txt" by simp_all
  from copy_loop_count_missing [OF l this(1) this(2) assms this(3)]
  show "path_exists fs' (images_dst @ [name img])" and "count_list missing_labels (name img) = 1"
    by simp_all
next
  assume a: "copy_ready fs pairs images_dst labels_dst \<and> img \<in> set pairs \<and> distinct (map name pairs) \<and>
          \<not> path_exists fs txt"
  then have r: "copy_ready fs pairs images_dst labels_dst" and i: "img \<in> set pairs"
    and d: "distinct (map name pairs)" and n: "\<not> path_exists fs txt"
    by simp_all
  from r i have "name img \<noteq> []" by (simp add: copy_ready_def)
  with assms have "txt = label_of img" by (simp add: with_suffix_txt)
  with n have "\<not> path_exists fs (label_of img)" by simp
  with d i have "count_list [name i. i \<leftarrow> pairs, \<not> path_exists fs (label_of i)] (name img) = 1"
    by (rule count_missing_names)
  with copy_loop_ok [OF r d, of 0 "[]"] i
  show "\<exists>fs'' ms. copy_pairs fs pairs images_dst labels_dst = (fs'', Inr (length pairs, ms)) \<and>
               node_at fs'' (images_dst @ [name img]) = node_at fs img \<and>
               count_list ms (name img) = 1"
    by (auto simp: copy_pairs_def)
qed

theorem copy_pairs_missing_label_witness:
  "with_suffix [''raw'', ''b.jpg''] ''.txt'' = Inr [''raw'', ''b.txt''] \<and>
   copy2 raw_fs [''raw'', ''b.jpg''] ([''out'', ''images''] @ [name [''raw'', ''b.jpg'']]) =
     Inr (raw_fs @ [([''out'', ''images'', ''b.jpg''], File ''picture b'')]) \<and>
   \<not> path_exists (raw_fs @ [([''out'', ''images'', ''b.jpg''], File ''picture b'')]) [''raw'', ''b.txt''] \<and>
   copy_pair [''out'', ''images''] [''out'', ''labels''] raw_fs 0 [] [''raw'', ''b.jpg''] =
     (raw_fs @ [([''out'', ''images'', ''b.jpg''], File ''picture b'')], Inr (0 + 1, [] @ [name [''raw'', ''b.jpg'']])) \<and>
   copy_pairs raw_fs [[''raw'', ''a.jpg''], [''raw'', ''b.jpg'']] [''out'', ''images''] [''out'', ''labels''] =
     (raw_fs_copied, Inr (2, [''b.jpg''])) \<and>
   [''raw'', ''b.jpg''] \<in> set [[''raw'', ''a.jpg''], [''raw'', ''b.jpg'']] \<and>
   distinct (map name [[''raw'', ''a.jpg''], [''raw'', ''b.jpg'']]) \<and>
   \<not> path_exists raw_fs_copied [''raw'', ''b.txt''] \<and>
   path_exists raw_fs_copied ([''out'', ''images''] @ [name [''raw'', ''b.jpg'']]) \<and>
   count_list [''b.jpg''] (name [''raw'', ''b.jpg'']) = 1 \<and>
   copy_ready raw_fs [[''raw'', ''a.jpg''], [''raw'', ''b.jpg'']] [''out'', ''images''] [''out'', ''labels''] \<and>
   \<not> path_exists raw_fs [''raw'', ''b.txt''] \<and>
   node_at raw_fs_copied ([''out'', ''images''] @ [name [''raw'', ''b.jpg'']]) =
     node_at raw_fs [''raw'', ''b.jpg'']"
proof -
  let ?ps = "[[''raw'', ''a.jpg''], [''raw'', ''b.jpg'']]"
  have w: "with_suffix [''raw'', ''b.jpg''] ''.txt'' = Inr [''raw'', ''b.txt'']"
    by code_simp
  have c: "copy2 raw_fs [''raw'', ''b.jpg''] ([''out'', ''images''] @ [name [''raw'', ''b.jpg'']]) =
      Inr (raw_fs @ [([''out'', ''images'', ''b.jpg''], File ''picture b'')])"
    by code_simp
  have n: "\<not> path_exists (raw_fs @ [([''out'', ''images'', ''b.jpg''], File ''picture b'')]) [''raw'', ''b.txt'']"
    by code_simp
  have r: "copy_pairs raw_fs ?ps [''out'', ''images''] [''out'', ''labels''] =
      (raw_fs_copied, Inr (2, [''b.jpg'']))"
    by code_simp
  have i: "[''raw'', ''b.jpg''] \<in> set ?ps" by simp
  have d: "distinct (map name ?ps)" by code_simp
  have e: "\<not> path_exists raw_fs_copied [''raw'', ''b.txt'']" by code_simp
  have cr: "copy_ready raw_fs ?ps [''out'', ''images''] [''out'', ''labels'']" by code_simp
  have e0: "\<not> path_exists raw_fs [''raw'', ''b.txt'']" by code_simp
  note t = copy_pairs_missing_label [OF w, of raw_fs "[''out'', ''images'']"
      "raw_fs @ [([''out'', ''images'', ''b.jpg''], File ''picture b'')]" "[''out'', ''labels'']" 0 "[]"
      raw_fs ?ps raw_fs_copied 2 "[''b.jpg'']"]
  from t c n have 1: "copy_pair [''out'', ''images''] [''out'', ''labels''] raw_fs 0 [] [''raw'', ''b.jpg''] =
     (raw_fs @ [([''out'', ''images'', ''b.jpg''], File ''picture b'')], Inr (0 + 1, [] @ [name [''raw'', ''b.jpg'']]))"
    by blast
  from t r i d e have 2: "path_exists raw_fs_copied ([''out'', ''images''] @ [name [''raw'', ''b.jpg'']]) \<and>
      count_list [''b.jpg''] (name [''raw'', ''b.jpg'']) = 1"
    by blast
  from t cr i d e0 obtain fs'' ms where
    "copy_pairs raw_fs ?ps [''out'', ''images''] [''out'', ''labels''] = (fs'', Inr (length ?ps, ms))"
    and k: "node_at fs'' ([''out'', ''images''] @ [name [''raw'', ''b.jpg'']]) = node_at raw_fs [''raw'', ''b.jpg'']"
    by blast
  with r have "fs'' = raw_fs_copied" by simp
  with k have 3: "node_at raw_fs_copied ([''out'', ''images''] @ [name [''raw'', ''b.jpg'']]) =
     node_at raw_fs [''raw'', ''b.jpg'']"
    by simp
  from w c n 1 r i d e 2 cr e0 3 show ?thesis by blast
qed

text \<open>
  C3 as stated fails on an input list that holds an unlabelled image twice: its name
  is recorded twice.
\<close>

theorem copy_pairs_missing_twice_counterexample:
  "\<not> path_exists raw_fs [''raw'', ''b.txt''] \<and>
   snd (copy_pairs raw_fs [[''raw'', ''b.jpg''], [''raw'', ''b.jpg'']] [''out'', ''images''] [''out'', ''labels'']) =
     Inr (2, [''b.jpg'', ''b.jpg'']) \<and>
   count_list [''b.jpg'', ''b.jpg''] (name [''raw'', ''b.jpg'']) = 2"
  by code_simp

end
